theory Spec2Isabelle
  imports Complex_Main "HOL-Library.Char_ord" "HOL-Library.List_Lexorder" "HOL-Library.Monad_Syntax"
begin

section \<open>Release pipeline of wp\_plugin\_release (wp\_plugin\_release.go)\<close>

text \<open>
  Strings are Go strings: sequences of bytes, here \<open>char list\<close>.  Functions of the Go
  standard library that the program calls are modelled next to their callers; Go's
  \<open>int\<close> is the 64-bit integer of the platforms the tool is built for.  Log output
  (\<open>logAndPrint\<close>) is not part of the model.
\<close>

subsection \<open>Standard library: strings and strconv\<close>

text \<open>\<open>strings.Split(s, sep)\<close> for a one-byte separator: never empty, \<open>[""]\<close> for \<open>""\<close>.\<close>

fun strings_Split :: "string \<Rightarrow> char \<Rightarrow> string list" where
  "strings_Split [] sep = [[]]"
| "strings_Split (x # xs) sep =
     (if x = sep then [] # strings_Split xs sep
      else (case strings_Split xs sep of
              [] \<Rightarrow> [[x]]
            | y # ys \<Rightarrow> (x # y) # ys))"

definition isDigit :: "char \<Rightarrow> bool" where
  "isDigit c = (48 \<le> (of_char c :: int) \<and> (of_char c :: int) \<le> 57)"

text \<open>The two errors of package strconv.\<close>

datatype num_error = ErrSyntax | ErrRange

text \<open>
  The loop of \<open>strconv.ParseUint(s, 10, 64)\<close> over the bytes of \<open>s\<close>, \<open>n\<close> the value
  so far.  A byte that is not a digit ends it with a syntax error and the value 0.  A
  digit with which the value leaves the range of uint64 ends it with a range error and
  the value \<open>1<<64 - 1\<close>, whatever bytes follow: \<open>n >= cutoff\<close>, where
  \<open>cutoff = maxUint64/10 + 1\<close>, is the test for \<open>n*10\<close>, and \<open>n1 < n || n1 > maxVal\<close>
  the test for \<open>n*10 + d\<close>, which wraps around in Go and does not here.
\<close>

fun parseUintLoop :: "int \<Rightarrow> string \<Rightarrow> int \<times> num_error option" where
  "parseUintLoop n [] = (n, None)"
| "parseUintLoop n (c # cs) =
     (if \<not> isDigit c then (0, Some ErrSyntax)
      else if n \<ge> 1844674407370955162 then (18446744073709551615, Some ErrRange)
      else (let n1 = n * 10 + (of_char c - 48)
            in if n1 > 18446744073709551615 then (18446744073709551615, Some ErrRange)
               else parseUintLoop n1 cs))"

definition strconv_ParseUint :: "string \<Rightarrow> int \<times> num_error option" where
  "strconv_ParseUint s = (if s = [] then (0, Some ErrSyntax) else parseUintLoop 0 s)"

text \<open>
  \<open>strconv.ParseInt(s, 10, 64)\<close>: the value and the error.  The sign is taken off and
  the rest goes through ParseUint; a syntax error gives 0; a range error of ParseUint, or
  a value that int64 does not hold, gives the nearest bound of int64 and a range error.
\<close>

definition strconv_ParseInt :: "string \<Rightarrow> int \<times> num_error option" where
  "strconv_ParseInt s =
     (if s = [] then (0, Some ErrSyntax)
      else
        (let neg = (hd s = CHR ''-'');
             s1 = (if hd s = CHR ''+'' \<or> hd s = CHR ''-'' then tl s else s);
             (un, err) = strconv_ParseUint s1
         in if err = Some ErrSyntax then (0, err)
            else if \<not> neg \<and> un \<ge> 9223372036854775808
              then (9223372036854775807, Some ErrRange)
            else if neg \<and> un > 9223372036854775808
              then (- 9223372036854775808, Some ErrRange)
            else (if neg then - un else un, None)))"

text \<open>The loop of the fast path of \<open>strconv.Atoi\<close>: \<open>None\<close> at a byte that is not a digit.\<close>

fun atoiLoop :: "int \<Rightarrow> string \<Rightarrow> int option" where
  "atoiLoop n [] = Some n"
| "atoiLoop n (ch # cs) =
     (if \<not> isDigit ch then None else atoiLoop (n * 10 + (of_char ch - 48)) cs)"

text \<open>
  \<open>strconv.Atoi\<close> where \<open>int\<close> has 64 bits: the fast path for a string of fewer than 19
  bytes, whose value always fits, and \<open>ParseInt(s, 10, 0)\<close> for every other string.
\<close>

definition strconv_Atoi :: "string \<Rightarrow> int \<times> num_error option" where
  "strconv_Atoi s =
     (if 0 < length s \<and> length s < 19 then
        (let s1 = (if hd s = CHR ''-'' \<or> hd s = CHR ''+'' then tl s else s)
         in if (hd s = CHR ''-'' \<or> hd s = CHR ''+'') \<and> s1 = [] then (0, Some ErrSyntax)
            else (case atoiLoop 0 s1 of
                    None \<Rightarrow> (0, Some ErrSyntax)
                  | Some n \<Rightarrow> (if hd s = CHR ''-'' then - n else n, None)))
      else strconv_ParseInt s)"

subsection \<open>getHigherVersion\<close>

text \<open>
  The loop \<open>for i := 0; i < maxLen; i++\<close> of getHigherVersion.  \<open>n1\<close> and \<open>n2\<close> are
  declared in the loop body and so start at 0; the error of Atoi is dropped.
\<close>

function versionLoop ::
  "string \<Rightarrow> string \<Rightarrow> string list \<Rightarrow> string list \<Rightarrow> nat \<Rightarrow> nat \<Rightarrow> string" where
  "versionLoop v1 v2 parts1 parts2 maxLen i =
     (if i < maxLen then
        (let n1 = (if i < length parts1 then fst (strconv_Atoi (parts1 ! i)) else 0);
             n2 = (if i < length parts2 then fst (strconv_Atoi (parts2 ! i)) else 0)
         in if n1 > n2 then v1
            else if n2 > n1 then v2
            else versionLoop v1 v2 parts1 parts2 maxLen (Suc i))
      else v1)"
  by pat_completeness auto
termination
  by (relation "measure (\<lambda>(v1, v2, parts1, parts2, maxLen, i). maxLen - i)") auto

declare versionLoop.simps [simp del]

definition getHigherVersion :: "string \<Rightarrow> string \<Rightarrow> string" where
  "getHigherVersion v1 v2 =
     (if v1 = [] \<and> v2 = [] then []
      else if v1 = [] then v2
      else if v2 = [] then v1
      else (let parts1 = strings_Split v1 CHR ''.'';
                parts2 = strings_Split v2 CHR ''.'';
                maxLen = (if length parts2 > length parts1 then length parts2 else length parts1)
            in versionLoop v1 v2 parts1 parts2 maxLen 0))"

text \<open>The numeric components of a dotted version string, as the loop reads them.\<close>

definition components :: "string \<Rightarrow> int list" where
  "components v = map (\<lambda>p. fst (strconv_Atoi p)) (strings_Split v CHR ''.'')"

text \<open>The first component of a list that is not 0, and 0 when there is none.\<close>

fun firstNonZero :: "int list \<Rightarrow> int" where
  "firstNonZero [] = 0"
| "firstNonZero (n # ns) = (if n \<noteq> 0 then n else firstNonZero ns)"

text \<open>
  The first position at which two lists of components differ, the shorter list continued
  with 0s: the two components there, or \<open>None\<close> when there is no such position.
\<close>

fun firstDifference :: "int list \<Rightarrow> int list \<Rightarrow> (int \<times> int) option" where
  "firstDifference [] [] = None"
| "firstDifference (a # as) [] = (if a \<noteq> 0 then Some (a, 0) else firstDifference as [])"
| "firstDifference [] (b # bs) = (if b \<noteq> 0 then Some (0, b) else firstDifference [] bs)"
| "firstDifference (a # as) (b # bs) = (if a \<noteq> b then Some (a, b) else firstDifference as bs)"

definition componentAt :: "string list \<Rightarrow> nat \<Rightarrow> int" where
  "componentAt parts i = (if i < length parts then fst (strconv_Atoi (parts ! i)) else 0)"

subsection \<open>The descriptor: UpdateInfo\<close>

text \<open>
  A JSON value as \<open>encoding/json\<close> decodes it into \<open>interface{}\<close>: nil, a bool, a
  float64 (here the real number that it is), a string, a slice, or a map, kept as the
  list of its members.
\<close>

datatype json =
    JNull
  | JBool bool
  | JNumber real
  | JString string
  | JArray "json list"
  | JObject "(string \<times> json) list"

text \<open>
  The struct \<open>UpdateInfo\<close>.  A Go map with string keys is an association list, a slice a
  list; the nil and the empty map or slice are both \<open>[]\<close>.
\<close>

record UpdateInfo =
  Version :: string
  LastUpdated :: string
  DownloadURL :: string
  Details :: string
  DetailsURL :: string
  Upgrade_notice :: string
  TestedWP :: string
  RequiresWP :: string
  RequiresPHP :: string
  Homepage :: string
  Sections :: "(string \<times> string) list"
  Banners :: "(string \<times> string) list"
  Icons :: "(string \<times> string) list"
  Screenshots :: "(string \<times> string) list list"
  Contributors :: "(string \<times> string) list"
  Tags :: "string list"
  Donate_link :: string
  Ratings :: "(string \<times> int) list"
  Rating :: real
  NumRatings :: int
  Downloaded :: int
  Active_installs :: int
  Added :: string
  Slug :: string
  Name :: string
  Author :: string
  AuthorProfile :: string
  Extra :: "(string \<times> json) list"

text \<open>The zero value of the struct.\<close>

definition emptyUpdateInfo :: UpdateInfo where
  "emptyUpdateInfo =
     \<lparr>Version = [], LastUpdated = [], DownloadURL = [], Details = [], DetailsURL = [],
      Upgrade_notice = [], TestedWP = [], RequiresWP = [], RequiresPHP = [], Homepage = [],
      Sections = [], Banners = [], Icons = [], Screenshots = [], Contributors = [], Tags = [],
      Donate_link = [], Ratings = [], Rating = 0, NumRatings = 0, Downloaded = 0,
      Active_installs = 0, Added = [], Slug = [], Name = [], Author = [], AuthorProfile = [],
      Extra = []\<rparr>"

text \<open>
  processUpdateInfo; \<open>now\<close> is \<open>time.Now().Format("2006-01-02 15:04:05")\<close>.  The function
  always returns a nil error, so the model returns the descriptor alone.
\<close>

definition processUpdateInfo :: "string \<Rightarrow> UpdateInfo \<Rightarrow> string \<Rightarrow> UpdateInfo" where
  "processUpdateInfo now updateInfo currentVersion =
     (if getHigherVersion (Version updateInfo) currentVersion = currentVersion
         \<and> Version updateInfo \<noteq> currentVersion
      then updateInfo\<lparr>Version := currentVersion, LastUpdated := now\<rparr>
      else updateInfo)"

subsection \<open>Errors and the file system\<close>

text \<open>One constructor for each error message the program returns.\<close>

datatype error =
    PhpReadFile
  | SliceBoundsPanic
  | NoValidVersion
  | NoValidPuc string
  | RenameFile
  | WritePhp
  | UpdateInfoMissing
  | UpdateInfoReadFile
  | UpdateInfoInvalidJson
  | UpdateInfoStructure
  | JsonPrepare
  | JsonMix
  | NilMapPanic
  | JsonFinal
  | BackupCreate
  | UpdateInfoWriteFile
  | ZipCreate
  | WalkFiles string
  | UrlParse
  | UrlEndsDirectory string
  | UrlNoFilename string
  | StatError
  | OpenError
  | OutputError
  | FileDoesNotExist
  | ParseIntError
  | SessionError
  | PipeError
  | StartError
  | CopyError
  | CloseAfterCopyError
  | CloseError
  | WaitError

text \<open>
  How a call of \<open>os.WriteFile\<close> on a path ends: the file is written; it cannot be opened
  and nothing changes; or the write fails after the file was truncated and some bytes
  were written.
\<close>

datatype write_mode = WriteOk | OpenFails | WriteFailsAfter nat

text \<open>
  The files by path, with the paths that exist but cannot be read, the paths that cannot
  be renamed, and how a write to each path ends.
\<close>

record filesys =
  files :: "string \<rightharpoonup> string"
  unreadable :: "string set"
  unrenamable :: "string set"
  writing :: "string \<Rightarrow> write_mode"

definition os_ReadFile :: "filesys \<Rightarrow> string \<Rightarrow> string option" where
  "os_ReadFile fs path = (if path \<in> unreadable fs then None else files fs path)"

text \<open>\<open>os.Rename\<close>: the new path is replaced; on an error nothing changes.\<close>

definition os_Rename :: "filesys \<Rightarrow> string \<Rightarrow> string \<Rightarrow> filesys option" where
  "os_Rename fs oldpath newpath =
     (case files fs oldpath of
        None \<Rightarrow> None
      | Some bytes \<Rightarrow>
          if oldpath \<in> unrenamable fs then None
          else Some (fs\<lparr>files := ((files fs)(oldpath := None))(newpath \<mapsto> bytes)\<rparr>))"

text \<open>\<open>os.WriteFile\<close>: the new file system and whether the call succeeded.\<close>

definition os_WriteFile :: "filesys \<Rightarrow> string \<Rightarrow> string \<Rightarrow> filesys \<times> bool" where
  "os_WriteFile fs path bytes =
     (case writing fs path of
        WriteOk \<Rightarrow> (fs\<lparr>files := (files fs)(path \<mapsto> bytes)\<rparr>, True)
      | OpenFails \<Rightarrow> (fs, False)
      | WriteFailsAfter n \<Rightarrow> (fs\<lparr>files := (files fs)(path \<mapsto> take n bytes)\<rparr>, False))"

subsection \<open>getUpdateInfo and setUpdateInfo\<close>

text \<open>
  The calls into \<open>encoding/json\<close> are parameters of the model.  \<open>Unmarshal_map\<close> is
  \<open>json.Unmarshal\<close> into a \<open>map[string]interface{}\<close> that was nil: \<open>None\<close> is an error,
  \<open>Some None\<close> the nil map that the document \<open>null\<close> leaves, \<open>Some (Some m)\<close> a map.
  \<open>Unmarshal_struct\<close> is \<open>json.Unmarshal\<close> into an \<open>UpdateInfo\<close>, \<open>Marshal\<close> is
  \<open>json.Marshal\<close> of an \<open>UpdateInfo\<close>, and \<open>Encode\<close> is marshalWithoutHTMLescaping, the
  indenting encoder, of a map that may be nil.
\<close>

record json_codec =
  Unmarshal_map :: "string \<Rightarrow> (string \<rightharpoonup> json) option option"
  Unmarshal_struct :: "string \<Rightarrow> UpdateInfo option"
  Marshal :: "UpdateInfo \<Rightarrow> string option"
  Encode :: "(string \<rightharpoonup> json) option \<Rightarrow> string option"

definition getUpdateInfo ::
  "json_codec \<Rightarrow> filesys \<Rightarrow> string \<Rightarrow> error + (UpdateInfo \<times> (string \<rightharpoonup> json) option)" where
  "getUpdateInfo codec fs updateInfoPath =
     (if files fs updateInfoPath = None then Inl UpdateInfoMissing
      else (case os_ReadFile fs updateInfoPath of
              None \<Rightarrow> Inl UpdateInfoReadFile
            | Some data \<Rightarrow>
                (case Unmarshal_map codec data of
                   None \<Rightarrow> Inl UpdateInfoInvalidJson
                 | Some allData \<Rightarrow>
                     (case Unmarshal_struct codec data of
                        None \<Rightarrow> Inl UpdateInfoStructure
                      | Some updateInfo \<Rightarrow> Inr (updateInfo, allData)))))"

text \<open>The keys of the typed schema: the tags of the fields of \<open>UpdateInfo\<close>.\<close>

definition schemaKeys :: "string list" where
  "schemaKeys =
     [''version'', ''last_updated'', ''download_url'', ''details'', ''details_url'',
      ''upgrade_notice'', ''tested'', ''requires'', ''requires_php'', ''homepage'', ''sections'',
      ''banners'', ''icons'', ''screenshots'', ''contributors'', ''tags'', ''donate_link'',
      ''ratings'', ''rating'', ''num_ratings'', ''downloaded'', ''active_installs'', ''added'',
      ''slug'', ''name'', ''author'', ''author_homepage'']"

text \<open>\<open>m[key]\<close> read from a map that may be nil: a nil map has no member.\<close>

definition member :: "(string \<rightharpoonup> json) option \<Rightarrow> string \<Rightarrow> json option" where
  "member m key = (case m of None \<Rightarrow> None | Some entries \<Rightarrow> entries key)"

text \<open>
  The loop \<open>for key, value := range structAsMap { allData[key] = value }\<close>.  The keys of
  a map are distinct, so in whatever order the loop visits them it leaves \<open>allData\<close> with
  the members of \<open>structAsMap\<close> written over its own.  Over a nil or an empty
  \<open>structAsMap\<close> the body does not run; otherwise the assignment into a nil \<open>allData\<close>
  panics, which is \<open>None\<close> here.
\<close>

definition mergeInto ::
  "(string \<rightharpoonup> json) option \<Rightarrow> (string \<rightharpoonup> json) option \<Rightarrow> (string \<rightharpoonup> json) option option" where
  "mergeInto allData structAsMap =
     (case structAsMap of
        None \<Rightarrow> Some allData
      | Some entries \<Rightarrow>
          if dom entries = {} then Some allData
          else (case allData of
                  None \<Rightarrow> None
                | Some m \<Rightarrow> Some (Some (m ++ entries))))"

text \<open>setUpdateInfo returns the error, if any, and the file system it leaves.\<close>

definition setUpdateInfo ::
  "json_codec \<Rightarrow> UpdateInfo \<Rightarrow> (string \<rightharpoonup> json) option \<Rightarrow> string \<Rightarrow> filesys
     \<Rightarrow> error option \<times> filesys" where
  "setUpdateInfo codec updateInfo allData updateInfoPath fs =
     (case Marshal codec updateInfo of
        None \<Rightarrow> (Some JsonPrepare, fs)
      | Some tempData \<Rightarrow>
          (case Unmarshal_map codec tempData of
             None \<Rightarrow> (Some JsonMix, fs)
           | Some structAsMap \<Rightarrow>
               (case mergeInto allData structAsMap of
                  None \<Rightarrow> (Some NilMapPanic, fs)
                | Some allData1 \<Rightarrow>
                    (case Encode codec allData1 of
                       None \<Rightarrow> (Some JsonFinal, fs)
                     | Some updatedData \<Rightarrow>
                         (case os_Rename fs updateInfoPath (updateInfoPath @ ''.bak'') of
                            None \<Rightarrow> (Some BackupCreate, fs)
                          | Some fs1 \<Rightarrow>
                              (case os_WriteFile fs1 updateInfoPath updatedData of
                                 (fs2, ok) \<Rightarrow>
                                   if ok then (None, fs2)
                                   else (Some UpdateInfoWriteFile, fs2)))))))"

subsection \<open>Standard library: strings and path/filepath\<close>

definition strings_HasPrefix :: "string \<Rightarrow> string \<Rightarrow> bool" where
  "strings_HasPrefix s p = (take (length p) s = p)"

definition strings_HasSuffix :: "string \<Rightarrow> string \<Rightarrow> bool" where
  "strings_HasSuffix s p = (length p \<le> length s \<and> drop (length s - length p) s = p)"

definition strings_TrimSuffix :: "string \<Rightarrow> string \<Rightarrow> string" where
  "strings_TrimSuffix s p = (if strings_HasSuffix s p then take (length s - length p) s else s)"

text \<open>\<open>strings.Replace(s, old, new, 1)\<close>: the first occurrence of \<open>old\<close> is replaced.\<close>

fun strings_Replace1 :: "string \<Rightarrow> string \<Rightarrow> string \<Rightarrow> string" where
  "strings_Replace1 [] old new = (if old = [] then new else [])"
| "strings_Replace1 (c # cs) old new =
     (if strings_HasPrefix (c # cs) old then new @ drop (length old) (c # cs)
      else c # strings_Replace1 cs old new)"

text \<open>\<open>strings.LastIndex(s, "/")\<close>, for a one-byte separator: \<open>-1\<close> when it is absent.\<close>

fun strings_LastIndex :: "string \<Rightarrow> char \<Rightarrow> int" where
  "strings_LastIndex [] sep = - 1"
| "strings_LastIndex (c # cs) sep =
     (let r = strings_LastIndex cs sep
      in if r \<ge> 0 then r + 1 else if c = sep then 0 else - 1)"

text \<open>
  \<open>filepath.Base\<close> where the separator is \<open>/\<close>: the last element of the path, after
  trailing separators are removed; \<open>.\<close> for the empty path and \<open>/\<close> for a path of
  separators only.
\<close>

definition filepath_Base :: "string \<Rightarrow> string" where
  "filepath_Base path =
     (if path = [] then ''.''
      else (let stripped = rev (dropWhile (\<lambda>c. c = CHR ''/'') (rev path));
                elem = rev (takeWhile (\<lambda>c. c \<noteq> CHR ''/'') (rev stripped))
            in if elem = [] then ''/'' else elem))"

subsection \<open>processMainPHPFile\<close>

text \<open>
  The six regular expressions of processMainPHPFile, in the order of their use: the
  version of the plugin comment, the version of the class property, the version of the
  define() statement, the Last-Update comment, the Version line after which a Last-Update
  comment is inserted, and the call of buildUpdateChecker.  The engine of package
  \<open>regexp\<close> is a parameter of the model: \<open>re p s\<close> is
  \<open>p.FindStringSubmatchIndex(s)\<close>, the empty list when there is no match, and else the
  start and end offsets of the match and of each group, \<open>-1\<close> for a group that took
  no part.
\<close>

datatype pattern =
    CommentVersionRegex
  | ClassVersionRegex
  | DefineVersionRegex
  | LastUpdateRegex
  | CommentVersionLineRegex
  | PucRegex

type_synonym regexp_engine = "pattern \<Rightarrow> string \<Rightarrow> int list"

text \<open>
  The slice expressions \<open>s[a:b]\<close>, \<open>s[:b]\<close> and \<open>s[a:]\<close>, which panic for offsets
  outside the string or in the wrong order: \<open>None\<close>.  \<open>splice s a b r\<close> is
  \<open>s[:a] + r + s[b:]\<close>.
\<close>

definition slice :: "string \<Rightarrow> int \<Rightarrow> int \<Rightarrow> string option" where
  "slice s a b =
     (if 0 \<le> a \<and> a \<le> b \<and> b \<le> int (length s) then Some (take (nat (b - a)) (drop (nat a) s))
      else None)"

definition sliceTo :: "string \<Rightarrow> int \<Rightarrow> string option" where
  "sliceTo s b = (if 0 \<le> b \<and> b \<le> int (length s) then Some (take (nat b) s) else None)"

definition sliceFrom :: "string \<Rightarrow> int \<Rightarrow> string option" where
  "sliceFrom s a = (if 0 \<le> a \<and> a \<le> int (length s) then Some (drop (nat a) s) else None)"

definition splice :: "string \<Rightarrow> int \<Rightarrow> int \<Rightarrow> string \<Rightarrow> string option" where
  "splice s a b r =
     do { front \<leftarrow> sliceTo s a; back \<leftarrow> sliceFrom s b; Some (front @ r @ back) }"

text \<open>A panic ends the program: it is an error of the model.\<close>

definition orPanic :: "(error + 'a) option \<Rightarrow> error + 'a" where
  "orPanic r = (case r of None \<Rightarrow> Inl SliceBoundsPanic | Some v \<Rightarrow> v)"

text \<open>
  The first part of processMainPHPFile: the three versions are read, the highest is the
  current version, and each declaration that differs from it is overwritten, the class
  property first, then the comment, then the define() statement, each at the offsets
  found in the text as it was read.  The result is the text and the current version.
\<close>

definition updateVersions :: "regexp_engine \<Rightarrow> string \<Rightarrow> error + (string \<times> string)" where
  "updateVersions re content =
     orPanic (
       let commentMatch = re CommentVersionRegex content;
           classMatch = re ClassVersionRegex content;
           defineMatch = re DefineVersionRegex content
       in do {
         commentVersion \<leftarrow>
           (if length commentMatch = 4
            then slice content (commentMatch ! 2) (commentMatch ! 3) else Some []);
         classVersion \<leftarrow>
           (if length classMatch = 4
            then slice content (classMatch ! 2) (classMatch ! 3) else Some []);
         defineKey \<leftarrow>
           (if length defineMatch \<ge> 6
            then slice content (defineMatch ! 2) (defineMatch ! 3) else Some []);
         defineVersion \<leftarrow>
           (if length defineMatch \<ge> 6
            then slice content (defineMatch ! 4) (defineMatch ! 5) else Some []);
         let currentVersion =
               getHigherVersion (getHigherVersion commentVersion classVersion) defineVersion;
         if currentVersion = [] then Some (Inl NoValidVersion)
         else do {
           contentStr1 \<leftarrow>
             (if classVersion \<noteq> [] \<and> classVersion \<noteq> currentVersion \<and> length classMatch = 4
              then splice content (classMatch ! 2) (classMatch ! 3) currentVersion
              else Some content);
           contentStr2 \<leftarrow>
             (if commentVersion \<noteq> [] \<and> commentVersion \<noteq> currentVersion
                 \<and> length commentMatch = 4
              then splice contentStr1 (commentMatch ! 2) (commentMatch ! 3) currentVersion
              else Some contentStr1);
           contentStr3 \<leftarrow>
             (if defineVersion \<noteq> [] \<and> defineVersion \<noteq> currentVersion
                 \<and> length defineMatch \<ge> 6
              then splice contentStr2 (defineMatch ! 4) (defineMatch ! 5) currentVersion
              else Some contentStr2);
           Some (Inr (contentStr3, currentVersion))
         }
       })"

text \<open>
  The loop \<open>for posBeforeVersion > 0 && contentStr[posBeforeVersion] != '\n'\<close>, which
  moves \<open>posBeforeVersion\<close> back to the line break before the Version line; the index
  expression panics at an offset that is not inside the text.
\<close>

function posBeforeVersionLoop :: "string \<Rightarrow> int \<Rightarrow> int option" where
  "posBeforeVersionLoop contentStr posBeforeVersion =
     (if posBeforeVersion > 0 then
        (if posBeforeVersion \<ge> int (length contentStr) then None
         else if contentStr ! nat posBeforeVersion \<noteq> CHR 0x0A
           then posBeforeVersionLoop contentStr (posBeforeVersion - 1)
         else Some posBeforeVersion)
      else Some posBeforeVersion)"
  by pat_completeness auto
termination
  by (relation "measure (\<lambda>(contentStr, posBeforeVersion). nat posBeforeVersion)") auto

declare posBeforeVersionLoop.simps [simp del]

text \<open>The Last-Update comment is given the current date, or added after the Version line.\<close>

definition updateLastUpdate :: "regexp_engine \<Rightarrow> string \<Rightarrow> string \<Rightarrow> error + string" where
  "updateLastUpdate re currentDate contentStr =
     orPanic (
       let lastUpdateMatch = re LastUpdateRegex contentStr
       in if length lastUpdateMatch \<ge> 4
          then map_option Inr
                 (splice contentStr (lastUpdateMatch ! 2) (lastUpdateMatch ! 3) currentDate)
          else
            (let commentMatch = re CommentVersionLineRegex contentStr
             in if length commentMatch = 4
                then do {
                  posBeforeVersion \<leftarrow> posBeforeVersionLoop contentStr (commentMatch ! 2);
                  front \<leftarrow> sliceTo contentStr (commentMatch ! 1);
                  indent \<leftarrow> slice contentStr posBeforeVersion (commentMatch ! 2);
                  back \<leftarrow> sliceFrom contentStr (commentMatch ! 1);
                  Some (Inr (front @ indent @ ''Last-Update: '' @ currentDate @ back))
                }
                else Some (Inr contentStr)))"

text \<open>
  The call of buildUpdateChecker: the slug is replaced first, then the URL, which stands
  before it in the text.  The slices that are only logged are taken all the same.
\<close>

definition updatePuc :: "regexp_engine \<Rightarrow> UpdateInfo \<Rightarrow> string \<Rightarrow> string \<Rightarrow> error + string" where
  "updatePuc re updateInfo phpFilePath contentStr =
     orPanic (
       let pucMatch = re PucRegex contentStr;
           newDownloadURL = strings_Replace1 (DownloadURL updateInfo)
                              (filepath_Base (DownloadURL updateInfo)) ''update_info.json''
       in if length pucMatch \<noteq> 8 then Some (Inl (NoValidPuc phpFilePath))
          else if \<not> (pucMatch ! 2 > 0 \<and> pucMatch ! 3 > pucMatch ! 2)
            then Some (Inl (NoValidPuc phpFilePath))
          else do {
            oldDownloadURL \<leftarrow> slice contentStr (pucMatch ! 2) (pucMatch ! 3);
            pucComment \<leftarrow>
              (if pucMatch ! 4 > 0 \<and> pucMatch ! 5 > pucMatch ! 4
               then slice contentStr (pucMatch ! 4) (pucMatch ! 5) else Some []);
            oldSlug \<leftarrow>
              (if pucMatch ! 6 > 0 \<and> pucMatch ! 7 > pucMatch ! 6
               then slice contentStr (pucMatch ! 6) (pucMatch ! 7) else Some []);
            let newSlug = Slug updateInfo;
            contentStr1 \<leftarrow>
              (if newSlug \<noteq> oldSlug
               then splice contentStr (pucMatch ! 6) (pucMatch ! 7) newSlug
               else Some contentStr);
            contentStr2 \<leftarrow>
              (if newDownloadURL \<noteq> oldDownloadURL
               then splice contentStr1 (pucMatch ! 2) (pucMatch ! 3) newDownloadURL
               else Some contentStr1);
            let lengthdiff =
                  (if newSlug \<noteq> oldSlug then int (length newSlug) - int (length oldSlug) else 0)
                  + (if newDownloadURL \<noteq> oldDownloadURL
                     then int (length newDownloadURL) - int (length oldDownloadURL) else 0);
            pucChanged \<leftarrow>
              (if newSlug \<noteq> oldSlug \<or> newDownloadURL \<noteq> oldDownloadURL
               then slice contentStr2 (pucMatch ! 0) (pucMatch ! 1 + lengthdiff) else Some []);
            Some (Inr contentStr2)
          })"

text \<open>
  processMainPHPFile; \<open>phpFilePath\<close> is \<open>filepath.Join(workDir, mainPHPFile)\<close> and
  \<open>currentDate\<close> the formatted \<open>time.Now()\<close>.  The result is the current version or the
  error, and the file system the call leaves.
\<close>

definition processMainPHPFile ::
  "regexp_engine \<Rightarrow> string \<Rightarrow> string \<Rightarrow> UpdateInfo \<Rightarrow> filesys \<Rightarrow> (error + string) \<times> filesys" where
  "processMainPHPFile re currentDate phpFilePath updateInfo fs =
     (case os_ReadFile fs phpFilePath of
        None \<Rightarrow> (Inl PhpReadFile, fs)
      | Some content \<Rightarrow>
          (case updateVersions re content of
             Inl e \<Rightarrow> (Inl e, fs)
           | Inr (contentStr, currentVersion) \<Rightarrow>
               (case updateLastUpdate re currentDate contentStr of
                  Inl e \<Rightarrow> (Inl e, fs)
                | Inr contentStr1 \<Rightarrow>
                    (case updatePuc re updateInfo phpFilePath contentStr1 of
                       Inl e \<Rightarrow> (Inl e, fs)
                     | Inr newContent \<Rightarrow>
                         (case os_Rename fs phpFilePath (phpFilePath @ ''.bak'') of
                            None \<Rightarrow> (Inl RenameFile, fs)
                          | Some fs1 \<Rightarrow>
                              (case os_WriteFile fs1 phpFilePath newContent of
                                 (fs2, ok) \<Rightarrow>
                                   if ok then (Inr currentVersion, fs2)
                                   else (Inl WritePhp, fs2)))))))"

subsection \<open>Standard library: unicode/utf8 and filepath.Match\<close>

definition RuneError :: nat where
  "RuneError = 65533"

text \<open>
  \<open>utf8.DecodeRuneInString\<close>: the first rune of the string and its width in bytes;
  \<open>(RuneError, 1)\<close> for an encoding that is not valid, \<open>(RuneError, 0)\<close> for \<open>""\<close>.
\<close>

definition utf8_DecodeRuneInString :: "string \<Rightarrow> nat \<times> nat" where
  "utf8_DecodeRuneInString s =
     (case s of
        [] \<Rightarrow> (RuneError, 0)
      | s0 # t \<Rightarrow>
          (let b0 = (of_char s0 :: nat)
           in if b0 < 128 then (b0, 1)
              else if b0 < 194 \<or> 244 < b0 then (RuneError, 1)
              else
                (let sz = (if b0 < 224 then 2 else if b0 < 240 then 3 else (4::nat));
                     lo = (if b0 = 224 then 160 else if b0 = 240 then 144 else (128::nat));
                     hi = (if b0 = 237 then 159 else if b0 = 244 then 143 else (191::nat))
                 in if length s < sz then (RuneError, 1)
                    else
                      (let b1 = (of_char (s ! 1) :: nat)
                       in if b1 < lo \<or> hi < b1 then (RuneError, 1)
                          else if sz = 2 then ((b0 mod 32) * 64 + b1 mod 64, 2)
                          else
                            (let b2 = (of_char (s ! 2) :: nat)
                             in if b2 < 128 \<or> 191 < b2 then (RuneError, 1)
                                else if sz = 3
                                then ((b0 mod 16) * 4096 + (b1 mod 64) * 64 + b2 mod 64, 3)
                                else
                                  (let b3 = (of_char (s ! 3) :: nat)
                                   in if b3 < 128 \<or> 191 < b3 then (RuneError, 1)
                                      else ((b0 mod 8) * 262144 + (b1 mod 64) * 4096
                                            + (b2 mod 64) * 64 + b3 mod 64, 4)))))))"

text \<open>
  \<open>scanChunk\<close> of package filepath: the index at which the scan of a chunk stops, at the
  first \<open>*\<close> outside a character class.
\<close>

fun chunkEnd :: "bool \<Rightarrow> string \<Rightarrow> nat" where
  "chunkEnd inrange [] = 0"
| "chunkEnd inrange [c] = (if c = CHR ''*'' \<and> \<not> inrange then 0 else 1)"
| "chunkEnd inrange (c # d # cs) =
     (if c = CHR 0x5C then 2 + chunkEnd inrange cs
      else if c = CHR ''['' then 1 + chunkEnd True (d # cs)
      else if c = CHR '']'' then 1 + chunkEnd False (d # cs)
      else if c = CHR ''*'' \<and> \<not> inrange then 0
      else 1 + chunkEnd inrange (d # cs))"

definition scanChunk :: "string \<Rightarrow> bool \<times> string \<times> string" where
  "scanChunk pattern =
     (let p = dropWhile (\<lambda>c. c = CHR ''*'') pattern;
          star = (pattern \<noteq> [] \<and> hd pattern = CHR ''*'');
          i = chunkEnd False p
      in (star, take i p, drop i p))"

text \<open>\<open>getEsc\<close>: one rune of a character class, \<open>None\<close> for \<open>ErrBadPattern\<close>.\<close>

definition getEsc :: "string \<Rightarrow> (nat \<times> string) option" where
  "getEsc chunk =
     (if chunk = [] \<or> hd chunk = CHR ''-'' \<or> hd chunk = CHR '']'' then None
      else
        (let chunk1 = (if hd chunk = CHR 0x5C then tl chunk else chunk)
         in if chunk1 = [] then None
            else
              (let (r, n) = utf8_DecodeRuneInString chunk1;
                   nchunk = drop n chunk1
               in if (r = RuneError \<and> n = 1) \<or> nchunk = [] then None
                  else Some (r, nchunk))))"

lemma utf8_DecodeRuneInString_size:
  "s \<noteq> [] \<Longrightarrow> 0 < snd (utf8_DecodeRuneInString s)"
  by (cases s) (simp_all add: utf8_DecodeRuneInString_def Let_def)

lemma getEsc_shorter: "getEsc chunk = Some (r, rest) \<Longrightarrow> length rest < length chunk"
proof -
  assume a: "getEsc chunk = Some (r, rest)"
  then have ne: "chunk \<noteq> []" by (auto simp: getEsc_def)
  define chunk1 where "chunk1 = (if hd chunk = CHR 0x5C then tl chunk else chunk)"
  have ne1: "chunk1 \<noteq> []" using a ne
    by (auto simp: getEsc_def chunk1_def Let_def split: if_splits)
  have "rest = drop (snd (utf8_DecodeRuneInString chunk1)) chunk1" using a ne
    by (auto simp: getEsc_def chunk1_def Let_def split: if_splits prod.splits)
  moreover have "0 < snd (utf8_DecodeRuneInString chunk1)"
    using ne1 by (rule utf8_DecodeRuneInString_size)
  moreover have "length chunk1 \<le> length chunk" by (simp add: chunk1_def)
  ultimately show ?thesis using ne1 by (cases chunk1) auto
qed

text \<open>
  The loop of \<open>matchChunk\<close> that reads the ranges of a character class up to the closing
  bracket: whether the rune \<open>r\<close> lies in a range, and the rest of the chunk.
\<close>

function parseRanges :: "nat \<Rightarrow> string \<Rightarrow> nat \<Rightarrow> bool \<Rightarrow> (bool \<times> string) option" where
  "parseRanges r chunk nrange match =
     (if chunk \<noteq> [] \<and> hd chunk = CHR '']'' \<and> nrange > 0 then Some (match, tl chunk)
      else
        (case getEsc chunk of
           None \<Rightarrow> None
         | Some (lo, chunk1) \<Rightarrow>
             if hd chunk1 = CHR ''-''
             then (case getEsc (tl chunk1) of
                     None \<Rightarrow> None
                   | Some (hi, chunk2) \<Rightarrow>
                       parseRanges r chunk2 (nrange + 1) (match \<or> (lo \<le> r \<and> r \<le> hi)))
             else parseRanges r chunk1 (nrange + 1) (match \<or> (lo \<le> r \<and> r \<le> lo))))"
  by pat_completeness auto
termination
proof (relation "measure (\<lambda>(r, chunk, nrange, match). length chunk)")
  show "wf (measure (\<lambda>(r, chunk, nrange, match). length chunk))" by simp
next
  fix r :: nat and chunk :: string and nrange :: nat and match :: bool
    and x2 :: "nat \<times> string" and lo :: nat and chunk1 :: string
    and x2' :: "nat \<times> string" and hi :: nat and chunk2 :: string
  assume a: "getEsc chunk = Some x2" "(lo, chunk1) = x2" "getEsc (tl chunk1) = Some x2'" "(hi, chunk2) = x2'"
  have "length chunk1 < length chunk" using a(1,2) getEsc_shorter [of chunk lo chunk1] by simp
  moreover have "length chunk2 < length (tl chunk1)"
    using a(3,4) getEsc_shorter [of "tl chunk1" hi chunk2] by simp
  ultimately show "((r, chunk2, nrange + 1, match \<or> lo \<le> r \<and> r \<le> hi), r, chunk, nrange, match)
        \<in> measure (\<lambda>(r, chunk, nrange, match). length chunk)"
    by simp
next
  fix r :: nat and chunk :: string and nrange :: nat and match :: bool
    and x2 :: "nat \<times> string" and lo :: nat and chunk1 :: string
  assume a: "getEsc chunk = Some x2" "(lo, chunk1) = x2"
  have "length chunk1 < length chunk" using a getEsc_shorter [of chunk lo chunk1] by simp
  then show "((r, chunk1, nrange + 1, match \<or> lo \<le> r \<and> r \<le> lo), r, chunk, nrange, match)
        \<in> measure (\<lambda>(r, chunk, nrange, match). length chunk)"
    by simp
qed

lemma parseRanges_shorter:
  "parseRanges r chunk nrange match = Some (m, rest) \<Longrightarrow> length rest \<le> length chunk"
proof (induction r chunk nrange match rule: parseRanges.induct)
  case (1 r chunk nrange match)
  show ?case
  proof (cases "chunk \<noteq> [] \<and> hd chunk = CHR '']'' \<and> nrange > 0")
    case True
    then show ?thesis using "1.prems" by (subst (asm) parseRanges.simps) auto
  next
    case False
    then obtain lo chunk1 where g1: "getEsc chunk = Some (lo, chunk1)"
      using "1.prems" by (subst (asm) parseRanges.simps) (auto split: option.splits)
    have s1: "length chunk1 < length chunk" using g1 by (rule getEsc_shorter)
    show ?thesis
    proof (cases "hd chunk1 = CHR ''-''")
      case dash: True
      then obtain hi chunk2 where g2: "getEsc (tl chunk1) = Some (hi, chunk2)"
        using "1.prems" False g1 by (subst (asm) parseRanges.simps) (auto split: option.splits)
      have s2: "length chunk2 < length (tl chunk1)" using g2 by (rule getEsc_shorter)
      have "parseRanges r chunk2 (nrange + 1) (match \<or> (lo \<le> r \<and> r \<le> hi)) = Some (m, rest)"
        using "1.prems" False g1 g2 dash by (subst (asm) parseRanges.simps) simp
      then have "length rest \<le> length chunk2"
        using "1.IH"(1) [OF False g1 refl dash g2 refl] by simp
      then show ?thesis using s1 s2 by simp
    next
      case nodash: False
      have "parseRanges r chunk1 (nrange + 1) (match \<or> (lo \<le> r \<and> r \<le> lo)) = Some (m, rest)"
        using "1.prems" False g1 nodash by (subst (asm) parseRanges.simps) simp
      then have "length rest \<le> length chunk1"
        using "1.IH"(2) [OF False g1 refl nodash] by simp
      then show ?thesis using s1 by simp
    qed
  qed
qed

text \<open>
  \<open>matchChunk\<close>: the chunk is read to its end even after the match has failed, so that a
  malformed chunk is always reported.  \<open>None\<close> is \<open>ErrBadPattern\<close>; otherwise the rest of
  the name and whether the chunk matched.
\<close>

function matchChunk :: "bool \<Rightarrow> string \<Rightarrow> string \<Rightarrow> (string \<times> bool) option" where
  "matchChunk failed [] s = Some (if failed then ([], False) else (s, True))"
| "matchChunk failed0 (c # chunk) s =
     (let failed = (failed0 \<or> s = [])
      in if c = CHR ''['' then
           (let r = (if \<not> failed then fst (utf8_DecodeRuneInString s) else 0);
                s1 = (if \<not> failed then drop (snd (utf8_DecodeRuneInString s)) s else s);
                negated = (chunk \<noteq> [] \<and> hd chunk = CHR ''^'');
                chunk1 = (if negated then tl chunk else chunk)
            in case parseRanges r chunk1 0 False of
                 None \<Rightarrow> None
               | Some (match, chunk2) \<Rightarrow> matchChunk (failed \<or> match = negated) chunk2 s1)
         else if c = CHR ''?'' then
           (if \<not> failed
            then matchChunk (hd s = CHR ''/'') chunk (drop (snd (utf8_DecodeRuneInString s)) s)
            else matchChunk failed chunk s)
         else if c = CHR 0x5C then
           (case chunk of
              [] \<Rightarrow> None
            | e # chunk1 \<Rightarrow>
                if \<not> failed then matchChunk (e \<noteq> hd s) chunk1 (tl s)
                else matchChunk failed chunk1 s)
         else
           (if \<not> failed then matchChunk (c \<noteq> hd s) chunk (tl s)
            else matchChunk failed chunk s))"
  by pat_completeness auto
termination
proof (relation "measure (\<lambda>(failed, chunk, s). length chunk)", goal_cases)
  case 1
  show ?case by simp
next
  case (2 failed0 c chunk s failed r s1 negated chunk1 x2 match chunk2)
  then have "parseRanges r chunk1 0 False = Some (match, chunk2)" by simp
  then have "length chunk2 \<le> length chunk1" by (rule parseRanges_shorter)
  moreover have "length chunk1 \<le> length chunk" using 2 by simp
  ultimately show ?case by simp
qed simp_all

text \<open>
  The inner loop of \<open>Match\<close> for a chunk after a star: the chunk is tried after each byte
  of the name up to the first separator.
\<close>

datatype star_result = StarError | StarFound string | StarNone

fun starLoop :: "string \<Rightarrow> bool \<Rightarrow> string \<Rightarrow> star_result" where
  "starLoop chunk lastChunk [] = StarNone"
| "starLoop chunk lastChunk (c # name) =
     (if c = CHR ''/'' then StarNone
      else (case matchChunk False chunk name of
              None \<Rightarrow> StarError
            | Some (t, ok) \<Rightarrow>
                if ok then (if lastChunk \<and> t \<noteq> [] then starLoop chunk lastChunk name
                            else StarFound t)
                else starLoop chunk lastChunk name))"

lemma chunkEnd_pos: "c \<noteq> CHR ''*'' \<Longrightarrow> 0 < chunkEnd False (c # cs)"
  by (cases cs) auto

lemma scanChunk_shorter:
  "pattern \<noteq> [] \<Longrightarrow> scanChunk pattern = (star, chunk, rest) \<Longrightarrow> length rest < length pattern"
proof -
  assume ne: "pattern \<noteq> []" and sc: "scanChunk pattern = (star, chunk, rest)"
  define p where "p = dropWhile (\<lambda>c. c = CHR ''*'') pattern"
  have rest: "rest = drop (chunkEnd False p) p" using sc by (simp add: scanChunk_def p_def Let_def)
  have le: "length p \<le> length pattern" by (simp add: p_def length_dropWhile_le)
  show ?thesis
  proof (cases "hd pattern = CHR ''*''")
    case True
    then have "length p < length pattern" using ne by (cases pattern) (auto simp: p_def length_dropWhile_le less_Suc_eq_le)
    then show ?thesis using rest by simp
  next
    case False
    then obtain c cs where p: "p = c # cs" "c \<noteq> CHR ''*''" using ne by (cases pattern) (auto simp: p_def)
    then have "0 < chunkEnd False p" using chunkEnd_pos by simp
    then show ?thesis using rest le p by simp
  qed
qed

text \<open>
  The last loop of \<open>Match\<close>: before a mismatch is reported, the rest of the pattern is
  checked for a syntax error.
\<close>

function checkRest :: "string \<Rightarrow> bool option" where
  "checkRest pattern =
     (if pattern = [] then Some False
      else (case scanChunk pattern of
              (star, chunk, rest) \<Rightarrow>
                (case matchChunk False chunk [] of
                   None \<Rightarrow> None
                 | Some res \<Rightarrow> checkRest rest)))"
  by pat_completeness auto
termination
  by (relation "measure length") (auto intro: scanChunk_shorter [OF _ sym])

declare checkRest.simps [simp del]

text \<open>
  \<open>filepath.Match(pattern, name)\<close> where the separator is \<open>/\<close>: \<open>None\<close> is
  \<open>ErrBadPattern\<close>, otherwise whether the name matches.
\<close>

function filepath_Match :: "string \<Rightarrow> string \<Rightarrow> bool option" where
  "filepath_Match pattern name =
     (if pattern = [] then Some (name = [])
      else (case scanChunk pattern of
              (star, chunk, rest) \<Rightarrow>
                if star \<and> chunk = [] then Some (CHR ''/'' \<notin> set name)
                else (case matchChunk False chunk name of
                        None \<Rightarrow> None
                      | Some (t, ok) \<Rightarrow>
                          if ok \<and> (t = [] \<or> rest \<noteq> []) then filepath_Match rest t
                          else if star then
                            (case starLoop chunk (rest = []) name of
                               StarError \<Rightarrow> None
                             | StarFound t1 \<Rightarrow> filepath_Match rest t1
                             | StarNone \<Rightarrow> checkRest rest)
                          else checkRest rest)))"
  by pat_completeness auto
termination
  by (relation "measure (\<lambda>(pattern, name). length pattern)")
    (auto intro: scanChunk_shorter [OF _ sym])

declare filepath_Match.simps [simp del]

subsection \<open>shouldSkip and createZipFile\<close>

text \<open>The inner loop of shouldSkip over the parts of the path.\<close>

fun anyPartMatches :: "string \<Rightarrow> string list \<Rightarrow> bool" where
  "anyPartMatches pattern [] = False"
| "anyPartMatches pattern (part # parts) =
     (if filepath_Match pattern part = Some True then True else anyPartMatches pattern parts)"

fun shouldSkip :: "string \<Rightarrow> string list \<Rightarrow> bool" where
  "shouldSkip path [] = False"
| "shouldSkip path (pattern # patterns) =
     (if filepath_Match pattern (filepath_Base path) = Some True then True
      else if anyPartMatches pattern (strings_Split path CHR ''/'') then True
      else shouldSkip path patterns)"

text \<open>
  The project tree as \<open>filepath.Walk\<close> sees it.  A file has a name and its bytes, \<open>None\<close>
  when it cannot be opened; a directory has a name, whether its entries can be read, and
  its entries.
\<close>

datatype node = File string "string option" | Dir string bool "node list"

fun nodeName :: "node \<Rightarrow> string" where
  "nodeName (File name bytes) = name"
| "nodeName (Dir name readable entries) = name"

fun isDir :: "node \<Rightarrow> bool" where
  "isDir (File name bytes) = False"
| "isDir (Dir name readable entries) = True"

fun nodeSize :: "node \<Rightarrow> nat" where
  "nodeSize (File name bytes) = 1"
| "nodeSize (Dir name readable entries) = Suc (sum_list (map nodeSize entries))"

text \<open>The archive: the entries written, each a name and its bytes, in the order written.\<close>

type_synonym archive = "(string \<times> string) list"

text \<open>
  What a call of the walk function or of \<open>walk\<close> returns: nil, \<open>filepath.SkipDir\<close>, or an
  error at a path; the first two with the archive written so far.
\<close>

datatype walk_result = Done archive | SkipDir archive | Failed string

definition defaultSkipPatterns :: "string list" where
  "defaultSkipPatterns =
     [''Updates'', ''update.config'', ''update.log'', ''*.code-workspace'', ''*.bak'',
      ''composer.lock'', ''Thumbs.db'']"

text \<open>
  The function that createZipFile passes to \<open>filepath.Walk\<close>.  \<open>relPath\<close> is the path
  relative to the source directory, \<open>err\<close> whether Walk reports an error for the entry.
\<close>

definition walkFn ::
  "string list \<Rightarrow> string \<Rightarrow> string \<Rightarrow> node \<Rightarrow> bool \<Rightarrow> archive \<Rightarrow> walk_result" where
  "walkFn allSkipPatterns slug relPath info err zw =
     (if err then Failed relPath
      else if relPath = ''.'' then Done zw
      else if shouldSkip relPath allSkipPatterns then (if isDir info then SkipDir zw else Done zw)
      else if isDir info then Done zw
      else (case info of
              File name (Some bytes) \<Rightarrow> Done (zw @ [(slug @ ''/'' @ relPath, bytes)])
            | File name None \<Rightarrow> Failed relPath
            | Dir name readable entries \<Rightarrow> Done zw))"

text \<open>The relative path of an entry of the directory at \<open>relPath\<close>.\<close>

definition joinRel :: "string \<Rightarrow> string \<Rightarrow> string" where
  "joinRel relPath name = (if relPath = ''.'' then name else relPath @ ''/'' @ name)"

lemma nodeSize_pos: "0 < nodeSize n"
  by (cases n) simp_all

lemma sum_list_nodeSize_insort_key:
  "sum_list (map nodeSize (insort_key f x xs)) = nodeSize x + sum_list (map nodeSize xs)"
  by (induction xs) simp_all

lemma sum_list_nodeSize_sort_key:
  "sum_list (map nodeSize (sort_key f entries)) = sum_list (map nodeSize entries)"
  by (induction entries) (simp_all add: sum_list_nodeSize_insort_key)

text \<open>
  \<open>walk\<close> of package filepath: a directory is read, the walk function is called for it,
  and then its entries are walked in the order of their names.  SkipDir from a directory
  skips that directory only.
\<close>

function walk :: "string list \<Rightarrow> string \<Rightarrow> string \<Rightarrow> node \<Rightarrow> archive \<Rightarrow> walk_result"
  and walkNames :: "string list \<Rightarrow> string \<Rightarrow> string \<Rightarrow> node list \<Rightarrow> archive \<Rightarrow> walk_result" where
  "walk pats slug relPath (File name bytes) zw =
     walkFn pats slug relPath (File name bytes) False zw"
| "walk pats slug relPath (Dir name readable entries) zw =
     (case walkFn pats slug relPath (Dir name readable entries) (\<not> readable) zw of
        Done zw1 \<Rightarrow>
          if \<not> readable then Done zw1
          else walkNames pats slug relPath (sort_key nodeName entries) zw1
      | SkipDir zw1 \<Rightarrow> SkipDir zw1
      | Failed e \<Rightarrow> Failed e)"
| "walkNames pats slug relPath [] zw = Done zw"
| "walkNames pats slug relPath (entry # rest) zw =
     (case walk pats slug (joinRel relPath (nodeName entry)) entry zw of
        Done zw1 \<Rightarrow> walkNames pats slug relPath rest zw1
      | SkipDir zw1 \<Rightarrow>
          if \<not> isDir entry then SkipDir zw1 else walkNames pats slug relPath rest zw1
      | Failed e \<Rightarrow> Failed e)"
  by pat_completeness auto
termination
  by (relation "measure (\<lambda>x. case x of
          Inl (pats, slug, relPath, n, zw) \<Rightarrow> 2 * nodeSize n
        | Inr (pats, slug, relPath, ns, zw) \<Rightarrow> 2 * sum_list (map nodeSize ns) + 1)")
     (auto simp: sum_list_nodeSize_sort_key nodeSize_pos)

text \<open>
  createZipFile; \<open>sourceDir\<close> is the tree at the source directory and \<open>canCreate\<close> whether
  \<open>os.Create(zipPath)\<close> succeeds.  The result is the archive written or the error.
\<close>

definition createZipFile :: "node \<Rightarrow> bool \<Rightarrow> string list \<Rightarrow> string \<Rightarrow> error + archive" where
  "createZipFile sourceDir canCreate skipPatterns slug =
     (if \<not> canCreate then Inl ZipCreate
      else (let allSkipPatterns = defaultSkipPatterns @ skipPatterns
            in case walk allSkipPatterns slug ''.'' sourceDir [] of
                 Done zw \<Rightarrow> Inr zw
               | SkipDir zw \<Rightarrow> Inr zw
               | Failed e \<Rightarrow> Inl (WalkFiles e)))"

text \<open>
  The files of a tree with the names on the way to each, and the trees in which each
  name is a file name: not empty, without a separator, and neither \<open>.\<close> nor \<open>..\<close>.
\<close>

fun filesOf :: "node \<Rightarrow> (string list \<times> string option) list"
  and filesOfList :: "node list \<Rightarrow> (string list \<times> string option) list" where
  "filesOf (File name bytes) = [([name], bytes)]"
| "filesOf (Dir name readable entries) = map (\<lambda>(segs, bytes). (name # segs, bytes)) (filesOfList entries)"
| "filesOfList [] = []"
| "filesOfList (entry # rest) = filesOf entry @ filesOfList rest"

definition validName :: "string \<Rightarrow> bool" where
  "validName name =
     (name \<noteq> [] \<and> CHR ''/'' \<notin> set name \<and> name \<noteq> ''.'' \<and> name \<noteq> ''..'')"

fun validTree :: "node \<Rightarrow> bool" and validTrees :: "node list \<Rightarrow> bool" where
  "validTree (File name bytes) = validName name"
| "validTree (Dir name readable entries) = (validName name \<and> validTrees entries)"
| "validTrees [] = True"
| "validTrees (entry # rest) = (validTree entry \<and> validTrees rest)"

text \<open>Joining the names on the way to an entry with separators.\<close>

fun joinPath :: "string list \<Rightarrow> string" where
  "joinPath [] = []"
| "joinPath [seg] = seg"
| "joinPath (seg # segs) = seg @ ''/'' @ joinPath segs"

text \<open>A name is excluded by a set of patterns when one of them matches it without error.\<close>

definition excluded :: "string list \<Rightarrow> string \<Rightarrow> bool" where
  "excluded patterns seg = (\<exists>pattern \<in> set patterns. filepath_Match pattern seg = Some True)"

text \<open>
  The entries that the files \<open>F\<close> of the directory at \<open>pre\<close> contribute to the archive:
  one for each file that can be read and has no excluded name on its way.
\<close>

definition archiveEntries ::
  "string list \<Rightarrow> string \<Rightarrow> string list \<Rightarrow> (string list \<times> string option) set
     \<Rightarrow> (string \<times> string) set" where
  "archiveEntries patterns slug pre F =
     {(slug @ ''/'' @ joinPath (pre @ segs), b) | segs b.
        (segs, Some b) \<in> F \<and> (\<forall>s \<in> set segs. \<not> excluded patterns s)}"

definition relOf :: "string list \<Rightarrow> string" where
  "relOf pre = (if pre = [] then ''.'' else joinPath pre)"

subsection \<open>The archive name in main\<close>






subsection \<open>parseRemotePath\<close>

text \<open>
  \<open>url.Parse\<close> is a parameter of the model: the parsed URL, of which the program reads
  the path, or \<open>None\<close> for an error.
\<close>

record URL =
  Path :: string

type_synonym url_parser = "string \<Rightarrow> URL option"

definition parseRemotePath :: "url_parser \<Rightarrow> string \<Rightarrow> string \<Rightarrow> error + string" where
  "parseRemotePath url_Parse downloadURL basedir =
     (case url_Parse downloadURL of
        None \<Rightarrow> Inl UrlParse
      | Some url_info \<Rightarrow>
          (let path0 = Path url_info;
               path = (if \<not> strings_HasPrefix path0 ''/'' then ''/'' @ path0 else path0)
           in if strings_HasSuffix path ''/'' then Inl (UrlEndsDirectory downloadURL)
              else (let pos = strings_LastIndex path CHR ''/''
                    in if pos < 0 then Inl (UrlNoFilename downloadURL)
                       else Inr (strings_TrimSuffix basedir ''/'' @ take (nat pos) path))))"

subsection \<open>uploadFileViaSFTP\<close>































subsection \<open>Sample inputs\<close>

text \<open>
  A stand-in for \<open>encoding/json\<close> on the documents of one run.  The descriptor file
  \<open>old\<close> decodes to a map with the unrecognized key \<open>x\<close> and the version \<open>1.0.0\<close>, and
  to a typed view of version \<open>1.0.0\<close>.  A typed view is marshalled to \<open>M\<close> and its
  version, which reads back as a map with the member \<open>version\<close>.  The encoder writes
  \<open>new\<close> for a map in which \<open>x\<close> has the value \<open>{"y":1}\<close> and the version is \<open>1.2.0\<close>.
\<close>

definition sampleCodec :: json_codec where
  "sampleCodec =
     \<lparr>Unmarshal_map = (\<lambda>data.
          if data = ''old''
          then Some (Some [''x'' \<mapsto> JObject [(''y'', JNumber 1)], ''version'' \<mapsto> JString ''1.0.0''])
          else if data \<noteq> [] \<and> hd data = CHR ''M'' then Some (Some [''version'' \<mapsto> JString (tl data)])
          else None),
      Unmarshal_struct = (\<lambda>data. if data = ''old'' then Some (emptyUpdateInfo\<lparr>Version := ''1.0.0''\<rparr>)
                                  else None),
      Marshal = (\<lambda>updateInfo. Some (''M'' @ Version updateInfo)),
      Encode = (\<lambda>doc. if member doc ''x'' = Some (JObject [(''y'', JNumber 1)])
                          \<and> member doc ''version'' = Some (JString ''1.2.0'')
                       then Some ''new'' else None)\<rparr>"

definition sampleFs :: filesys where
  "sampleFs = \<lparr>files = [''Updates/update_info.json'' \<mapsto> ''old''], unreadable = {},
               unrenamable = {}, writing = (\<lambda>path. WriteOk)\<rparr>"


text \<open>
  A project tree: \<open>a.txt\<close> and \<open>b.log\<close> at the root, \<open>Thumbs.db\<close> in the directory
  \<open>nested\<close>, and \<open>ignored.txt\<close> in the directory \<open>Updates\<close>.
\<close>

definition sampleEntries :: "node list" where
  "sampleEntries =
     [File ''b.log'' (Some ''B''),
      File ''a.txt'' (Some ''A''),
      Dir ''nested'' True [File ''Thumbs.db'' (Some ''D'')],
      Dir ''Updates'' True [File ''ignored.txt'' (Some ''C'')]]"

text \<open>
  A main file with the class property (\<open>1.2.0\<close>) before the comment (\<open>1.0.0\<close>) and a
  define() statement of the highest version (\<open>1.10.0\<close>), and what
  \<open>FindStringSubmatchIndex\<close> returns on it for the three expressions that read the
  versions: the comment is \<open>// Version: 1.0.0\<close> at the offsets 55 to 72 with the
  version at 67 to 72, the class property stands at 25 to 51 with the version at 45 to
  50, and the define() statement at 73 to 103 with the key at 81 to 83 and the version
  at 95 to 101.
\<close>

definition staleSource :: string where
  "staleSource =
     ''<?php\<newline>class TestPlugin { private $version = '1.2.0'; }\<newline>// Version: 1.0.0\<newline>define('TP_VERSION', '1.10.0');\<newline>$updateChecker = PucFactory::buildUpdateChecker('https://example.com/updates/plugin-v0.9.0.zip', __FILE__, 'old-slug');\<newline>''"

text \<open>
  The text that the run on \<open>staleSource\<close> has after the three versions are written,
  on which the expression for the Version line matches at 56 to 74 with the line at 59
  to 74 and the expression for a Last-Update comment does not match; and the text after
  the Last-Update line of 2024-01-02 03:04:05 is added, on which the call of
  buildUpdateChecker stands at 160 to 261, the URL at 192 to 237 and the slug at 251 to
  259, without a comment between them.
\<close>

definition staleVersioned :: string where
  "staleVersioned =
     ''<?php\<newline>class TestPlugin { private $version = '1.10.0'; }\<newline>// Version:1.10.00\<newline>define('TP_VERSION', '1.10.0');\<newline>$updateChecker = PucFactory::buildUpdateChecker('https://example.com/updates/plugin-v0.9.0.zip', __FILE__, 'old-slug');\<newline>''"

definition staleDated :: string where
  "staleDated =
     ''<?php\<newline>class TestPlugin { private $version = '1.10.0'; }\<newline>// Version:1.10.00\<newline>// Last-Update: 2024-01-02 03:04:05\<newline>define('TP_VERSION', '1.10.0');\<newline>$updateChecker = PucFactory::buildUpdateChecker('https://example.com/updates/plugin-v0.9.0.zip', __FILE__, 'old-slug');\<newline>''"

definition staleEngine :: regexp_engine where
  "staleEngine p s =
     (case p of
        CommentVersionRegex \<Rightarrow> if s = staleSource then [55, 72, 67, 72] else []
      | ClassVersionRegex \<Rightarrow> if s = staleSource then [25, 51, 45, 50] else []
      | DefineVersionRegex \<Rightarrow> if s = staleSource then [73, 103, 81, 83, 95, 101] else []
      | LastUpdateRegex \<Rightarrow> []
      | CommentVersionLineRegex \<Rightarrow> if s = staleVersioned then [56, 74, 59, 74] else []
      | PucRegex \<Rightarrow> if s = staleDated then [160, 261, 192, 237, - 1, - 1, 251, 259] else [])"

definition staleFs :: filesys where
  "staleFs = \<lparr>files = [''plugin.php'' \<mapsto> staleSource], unreadable = {},
              unrenamable = {}, writing = (\<lambda>path. WriteOk)\<rparr>"

text \<open>
  The main file of the test of processMainPHPFile, comment \<open>1.0.0\<close> and class property
  \<open>1.2.0\<close>, and what \<open>FindStringSubmatchIndex\<close> returns in the run on it: for the
  expressions of the comment and the class property on the file as read, for the
  Version line on the text with the versions updated, \<open>testVersioned\<close>, where there is
  no Last-Update comment, and for the call of buildUpdateChecker on the text with the
  Last-Update line of 2024-01-02 03:04:05 added, \<open>testDated\<close>.  There is no define()
  statement.
\<close>

definition testSource :: string where
  "testSource =
     ''<?php\<newline>/*\<newline> * Plugin Name: TestPlugin\<newline> * Version: 1.0.0\<newline> */\<newline>class TestPlugin { private $version = '1.2.0'; }\<newline>require 'vendor/autoload.php';\<newline>$updateChecker = PucFactory::buildUpdateChecker('https://example.com/updates/plugin-v0.9.0.zip', __FILE__, 'old-slug');\<newline>''"

definition testVersioned :: string where
  "testVersioned =
     ''<?php\<newline>/*\<newline> * Plugin Name: TestPlugin\<newline> * Version: 1.2.0\<newline> */\<newline>class TestPlugin { private $version = '1.2.0'; }\<newline>require 'vendor/autoload.php';\<newline>$updateChecker = PucFactory::buildUpdateChecker('https://example.com/updates/plugin-v0.9.0.zip', __FILE__, 'old-slug');\<newline>''"

definition testDated :: string where
  "testDated =
     ''<?php\<newline>/*\<newline> * Plugin Name: TestPlugin\<newline> * Version: 1.2.0\<newline> * Last-Update: 2024-01-02 03:04:05\<newline> */\<newline>class TestPlugin { private $version = '1.2.0'; }\<newline>require 'vendor/autoload.php';\<newline>$updateChecker = PucFactory::buildUpdateChecker('https://example.com/updates/plugin-v0.9.0.zip', __FILE__, 'old-slug');\<newline>''"

definition testEngine :: regexp_engine where
  "testEngine p s =
     (case p of
        CommentVersionRegex \<Rightarrow> if s = testSource then [6, 53, 48, 53] else []
      | ClassVersionRegex \<Rightarrow> if s = testSource then [77, 103, 97, 102] else []
      | DefineVersionRegex \<Rightarrow> []
      | LastUpdateRegex \<Rightarrow> []
      | CommentVersionLineRegex \<Rightarrow> if s = testVersioned then [6, 53, 39, 53] else []
      | PucRegex \<Rightarrow> if s = testDated then [191, 292, 223, 268, - 1, - 1, 282, 290] else [])"

definition testFs :: filesys where
  "testFs = \<lparr>files = [''plugin.php'' \<mapsto> testSource], unreadable = {},
             unrenamable = {}, writing = (\<lambda>path. WriteOk)\<rparr>"

definition testInfo :: UpdateInfo where
  "testInfo = emptyUpdateInfo\<lparr>DownloadURL := ''https://example.com/updates/plugin-v0.9.0.zip'',
                              Slug := ''new-slug''\<rparr>"

section \<open>Properties\<close>

subsection \<open>getHigherVersion\<close>

lemma versionLoop_unfold:
  "versionLoop v1 v2 p1 p2 m i =
     (if i < m then
        (if componentAt p1 i > componentAt p2 i then v1
         else if componentAt p2 i > componentAt p1 i then v2
         else versionLoop v1 v2 p1 p2 m (Suc i))
      else v1)"
  by (subst versionLoop.simps) (simp add: componentAt_def Let_def)

lemma versionLoop_skip:
  "i \<le> j \<Longrightarrow> j \<le> m \<Longrightarrow> (\<forall>k. i \<le> k \<and> k < j \<longrightarrow> componentAt p1 k = componentAt p2 k) \<Longrightarrow>
   versionLoop v1 v2 p1 p2 m i = versionLoop v1 v2 p1 p2 m j"
proof (induction "j - i" arbitrary: i)
  case 0
  then show ?case by simp
next
  case (Suc d)
  then have lt: "i < j" and eq: "componentAt p1 i = componentAt p2 i" by auto
  have "versionLoop v1 v2 p1 p2 m i = versionLoop v1 v2 p1 p2 m (Suc i)"
    using lt Suc.prems(2) eq by (subst versionLoop_unfold) simp
  also have "\<dots> = versionLoop v1 v2 p1 p2 m j"
    using Suc by (intro Suc.hyps(1)) auto
  finally show ?case .
qed

lemma versionLoop_all_equal:
  "(\<forall>k. k < m \<longrightarrow> componentAt p1 k = componentAt p2 k) \<Longrightarrow> versionLoop v1 v2 p1 p2 m 0 = v1"
  using versionLoop_skip [of 0 m m p1 p2 v1 v2]
  by (simp add: versionLoop_unfold [of v1 v2 p1 p2 m m])

lemma versionLoop_decide:
  assumes "j < m" "\<forall>k. k < j \<longrightarrow> componentAt p1 k = componentAt p2 k"
    and "componentAt p1 j \<noteq> componentAt p2 j"
  shows "versionLoop v1 v2 p1 p2 m 0 = (if componentAt p1 j > componentAt p2 j then v1 else v2)"
proof -
  have "versionLoop v1 v2 p1 p2 m 0 = versionLoop v1 v2 p1 p2 m j"
    using assms by (intro versionLoop_skip) auto
  also have "\<dots> = (if componentAt p1 j > componentAt p2 j then v1 else v2)"
    using assms(1,3) by (subst versionLoop_unfold) auto
  finally show ?thesis .
qed

lemma firstNonZero_zero: "firstNonZero ns = 0 \<longleftrightarrow> (\<forall>n\<in>set ns. n = 0)"
  by (induction ns) auto

lemma firstNonZero_index:
  "firstNonZero ns \<noteq> 0 \<Longrightarrow> \<exists>j<length ns. ns ! j = firstNonZero ns \<and> (\<forall>k<j. ns ! k = 0)"
proof (induction ns)
  case Nil
  then show ?case by simp
next
  case (Cons n ns)
  show ?case
  proof (cases "n = 0")
    case False
    then show ?thesis by (intro exI [of _ 0]) simp
  next
    case True
    with Cons obtain j where j: "j < length ns" "ns ! j = firstNonZero ns" "\<forall>k<j. ns ! k = 0"
      by auto
    show ?thesis
    proof (intro exI [of _ "Suc j"] conjI allI impI)
      fix k assume "k < Suc j"
      then show "(n # ns) ! k = 0" using True j(3) by (cases k) auto
    qed (use True j in auto)
  qed
qed

lemma getHigherVersion_loop:
  "v1 \<noteq> [] \<Longrightarrow> v2 \<noteq> [] \<Longrightarrow>
   getHigherVersion v1 v2 =
     versionLoop v1 v2 (strings_Split v1 CHR ''.'') (strings_Split v2 CHR ''.'')
       (max (length (strings_Split v1 CHR ''.'')) (length (strings_Split v2 CHR ''.''))) 0"
  by (simp add: getHigherVersion_def Let_def max_def)

lemma componentAt_components:
  "componentAt (strings_Split v CHR ''.'') k = (if k < length (components v) then components v ! k else 0)"
  by (simp add: componentAt_def components_def)

lemma versionLoop_firstDifference:
  "i \<le> max (length p1) (length p2) \<Longrightarrow>
   versionLoop v1 v2 p1 p2 (max (length p1) (length p2)) i =
     (case firstDifference (map (\<lambda>p. fst (strconv_Atoi p)) (drop i p1))
             (map (\<lambda>p. fst (strconv_Atoi p)) (drop i p2)) of
        None \<Rightarrow> v1
      | Some (n1, n2) \<Rightarrow> if n1 > n2 then v1 else v2)"
proof (induction "max (length p1) (length p2) - i" arbitrary: i)
  case 0
  then have i: "i = max (length p1) (length p2)" by (simp add: max_def split: if_splits)
  have "versionLoop v1 v2 p1 p2 m m = v1" for m
    by (subst versionLoop_unfold) simp
  then have "versionLoop v1 v2 p1 p2 (max (length p1) (length p2)) i = v1"
            "drop i p1 = []" "drop i p2 = []"
    using i by simp_all
  then show ?case by simp
next
  case (Suc d)
  then have lt: "i < max (length p1) (length p2)" by simp
  have ih: "versionLoop v1 v2 p1 p2 (max (length p1) (length p2)) (Suc i) =
     (case firstDifference (map (\<lambda>p. fst (strconv_Atoi p)) (drop (Suc i) p1))
             (map (\<lambda>p. fst (strconv_Atoi p)) (drop (Suc i) p2)) of
        None \<Rightarrow> v1
      | Some (n1, n2) \<Rightarrow> if n1 > n2 then v1 else v2)"
    using Suc.hyps(2) lt by (intro Suc.hyps(1)) simp_all
  have d1: "drop i p1 = (if i < length p1 then p1 ! i # drop (Suc i) p1 else [])"
    by (simp add: Cons_nth_drop_Suc)
  have d2: "drop i p2 = (if i < length p2 then p2 ! i # drop (Suc i) p2 else [])"
    by (simp add: Cons_nth_drop_Suc)
  have e1: "\<not> i < length p1 \<Longrightarrow> drop (Suc i) p1 = []" by simp
  have e2: "\<not> i < length p2 \<Longrightarrow> drop (Suc i) p2 = []" by simp
  consider "i < length p1" "i < length p2" | "i < length p1" "\<not> i < length p2"
    | "\<not> i < length p1" "i < length p2"
    using lt by fastforce
  then show ?case
  proof cases
    case 1
    then show ?thesis
      using lt ih by (subst versionLoop_unfold) (simp add: d1 d2 componentAt_def)
  next
    case 2
    then show ?thesis
      using lt ih e2 by (subst versionLoop_unfold) (simp add: d1 d2 componentAt_def)
  next
    case 3
    then show ?thesis
      using lt ih e1 by (subst versionLoop_unfold) (simp add: d1 d2 componentAt_def)
  qed
qed

lemma getHigherVersion_firstDifference:
  assumes "v1 \<noteq> []" "v2 \<noteq> []"
  shows "getHigherVersion v1 v2 =
           (case firstDifference (components v1) (components v2) of
              None \<Rightarrow> v1
            | Some (n1, n2) \<Rightarrow> if n1 > n2 then v1 else v2)"
  using assms
    versionLoop_firstDifference [of 0 "strings_Split v1 CHR ''.''" "strings_Split v2 CHR ''.''" v1 v2]
  by (simp add: getHigherVersion_loop components_def)

lemma getHigherVersion_extra_components:
  assumes ne: "v1 \<noteq> []" "v2 \<noteq> []"
    and len: "length (components v1) < length (components v2)"
    and pre: "take (length (components v1)) (components v2) = components v1"
  shows "getHigherVersion v1 v2 =
           (if 0 < firstNonZero (drop (length (components v1)) (components v2)) then v2 else v1)
       \<and> getHigherVersion v2 v1 =
           (if firstNonZero (drop (length (components v1)) (components v2)) < 0 then v1 else v2)"
proof -
  define c1 where "c1 = components v1"
  define c2 where "c2 = components v2"
  define p1 where "p1 = strings_Split v1 CHR ''.''"
  define p2 where "p2 = strings_Split v2 CHR ''.''"
  define ex where "ex = drop (length c1) c2"
  have l1: "length p1 = length c1" and l2: "length p2 = length c2"
    by (simp_all add: p1_def p2_def c1_def c2_def components_def)
  have m: "max (length p1) (length p2) = length c2" "max (length p2) (length p1) = length c2"
    using len l1 l2 by (simp_all add: c1_def c2_def)
  have a1: "componentAt p1 k = (if k < length c1 then c1 ! k else 0)" for k
    by (simp add: p1_def c1_def componentAt_components)
  have a2: "componentAt p2 k = (if k < length c2 then c2 ! k else 0)" for k
    by (simp add: p2_def c2_def componentAt_components)
  have low: "k < length c1 \<Longrightarrow> c2 ! k = c1 ! k" for k
    using pre nth_take [of k "length c1" c2] by (simp add: c1_def c2_def)
  have hi: "length c1 \<le> k \<Longrightarrow> k < length c2 \<Longrightarrow> c2 ! k = ex ! (k - length c1)" for k
    by (simp add: ex_def)
  have g12: "getHigherVersion v1 v2 = versionLoop v1 v2 p1 p2 (length c2) 0"
    using ne m by (simp add: getHigherVersion_loop p1_def p2_def)
  have g21: "getHigherVersion v2 v1 = versionLoop v2 v1 p2 p1 (length c2) 0"
    using ne m by (simp add: getHigherVersion_loop p1_def p2_def)
  show ?thesis
  proof (cases "firstNonZero ex = 0")
    case True
    then have z: "\<forall>n\<in>set ex. n = 0" by (simp add: firstNonZero_zero)
    have eq: "componentAt p1 k = componentAt p2 k" if "k < length c2" for k
    proof (cases "k < length c1")
      case True
      then show ?thesis using that low by (simp add: a1 a2)
    next
      case False
      then have "k - length c1 < length ex" using that by (simp add: ex_def)
      then have "ex ! (k - length c1) \<in> set ex" by (rule nth_mem)
      then have "ex ! (k - length c1) = 0" using z by blast
      then show ?thesis using False that hi [of k] by (simp add: a1 a2)
    qed
    have "versionLoop v1 v2 p1 p2 (length c2) 0 = v1"
      using eq by (intro versionLoop_all_equal) simp
    moreover have "versionLoop v2 v1 p2 p1 (length c2) 0 = v2"
      using eq by (intro versionLoop_all_equal) simp
    ultimately show ?thesis using True g12 g21 by (simp add: ex_def c1_def c2_def)
  next
    case False
    then obtain j where j: "j < length ex" "ex ! j = firstNonZero ex" "\<forall>k<j. ex ! k = 0"
      using firstNonZero_index by blast
    define i where "i = length c1 + j"
    have i: "i < length c2" "length c1 \<le> i" using j(1) by (simp_all add: i_def ex_def)
    have ci: "componentAt p1 i = 0" "componentAt p2 i = firstNonZero ex"
      using i j(2) hi [of i] by (simp_all add: a1 a2 i_def)
    have eq: "componentAt p1 k = componentAt p2 k" if "k < i" for k
    proof (cases "k < length c1")
      case True
      then show ?thesis using that i low by (simp add: a1 a2)
    next
      case False
      then have "k - length c1 < j" using that by (simp add: i_def)
      then have "ex ! (k - length c1) = 0" using j(3) by simp
      then show ?thesis using False that i hi [of k] by (simp add: a1 a2)
    qed
    have "versionLoop v1 v2 p1 p2 (length c2) 0
            = (if componentAt p1 i > componentAt p2 i then v1 else v2)"
      using i eq ci False by (intro versionLoop_decide) auto
    moreover have "versionLoop v2 v1 p2 p1 (length c2) 0
            = (if componentAt p2 i > componentAt p1 i then v2 else v1)"
      using i eq ci False by (intro versionLoop_decide) auto
    ultimately show ?thesis using False g12 g21 ci by (auto simp: ex_def c1_def c2_def)
  qed
qed


lemmas version_eval = components_def strconv_Atoi_def strconv_ParseInt_def
  strconv_ParseUint_def isDigit_def Let_def

text \<open>
  What Atoi makes of a segment: the number; 0 for a segment that is not a number, also
  when it begins with digits; and the nearest bound of int64 for digits out of range,
  also when a byte that is not a digit follows the digit at which the range is left.
\<close>

lemma components_examples:
  "components ''1.02.x.3x.-4'' = [1, 2, 0, 0, - 4]"
  "components ''9223372036854775808.-9223372036854775809.9223372036854775808x''
     = [9223372036854775807, - 9223372036854775808, 0]"
  "components ''99999999999999999999x.-99999999999999999999x.18446744073709551615x''
     = [9223372036854775807, - 9223372036854775808, 0]"
  by (simp_all add: version_eval)

text \<open>
  C1, as stated, fails: for \<open>1.2\<close> against \<open>1.2.0\<close> the missing third component of \<open>1.2\<close>
  is read as 0, the versions compare equal, and the first operand \<open>1.2\<close> is returned, not
  the longer string.
\<close>

theorem getHigherVersion_trailing_zero_counterexample:
  "getHigherVersion ''1.2'' ''1.2.0'' \<noteq> ''1.2.0''"
  by code_simp

text \<open>
  C1, amended.  For two non-empty version strings, getHigherVersion compares the
  components from left to right, the shorter string continued with 0s, and returns the
  string whose component is the greater at the first position where they differ, and its
  first operand when there is no such position.  So when the two strings agree in their
  components on the segments of the shorter one, getHigherVersion returns the longer
  string when the first of its extra components that is not 0 is positive; when every
  extra component is 0 it returns its first operand; and when that first extra component
  is negative it returns the shorter string; for either order of the operands.  A
  component is what Atoi returns for the segment: the number, 0 for a segment that Atoi
  rejects with a syntax error, and the nearest bound of int64 for a segment that it
  rejects as out of range.
\<close>

theorem getHigherVersion_shared_prefix:
  assumes ne: "v1 \<noteq> []" "v2 \<noteq> []"
  shows "getHigherVersion v1 v2 =
           (case firstDifference (components v1) (components v2) of
              None \<Rightarrow> v1
            | Some (n1, n2) \<Rightarrow> if n1 > n2 then v1 else v2)
       \<and> (length (components v1) < length (components v2)
            \<and> take (length (components v1)) (components v2) = components v1 \<longrightarrow>
          getHigherVersion v1 v2 =
            (if 0 < firstNonZero (drop (length (components v1)) (components v2)) then v2 else v1)
          \<and> getHigherVersion v2 v1 =
            (if firstNonZero (drop (length (components v1)) (components v2)) < 0 then v1 else v2))"
  using getHigherVersion_firstDifference [OF ne] getHigherVersion_extra_components [OF ne]
  by blast

text \<open>
  The theorem at \<open>1.2\<close> against \<open>1.2.3\<close> (the longer string, in either order), at \<open>1.2\<close>
  against \<open>1.2.0\<close> (the first operand), at \<open>1.x\<close> against \<open>1.0.1\<close>, where the segment
  \<open>x\<close> is not a number and counts as 0, at \<open>1.2\<close> against \<open>1.2.99999999999999999999x\<close>,
  where the third segment leaves the range before its last byte is read and counts as
  the greatest int64, and at \<open>1.10.0\<close> against \<open>1.9.x\<close>, which differ at the second
  component.
\<close>

theorem getHigherVersion_shared_prefix_witness:
  "getHigherVersion ''1.2'' ''1.2.3'' = ''1.2.3'' \<and> getHigherVersion ''1.2.3'' ''1.2'' = ''1.2.3''
   \<and> getHigherVersion ''1.2'' ''1.2.0'' = ''1.2'' \<and> getHigherVersion ''1.2.0'' ''1.2'' = ''1.2.0''
   \<and> getHigherVersion ''1.x'' ''1.0.1'' = ''1.0.1'' \<and> getHigherVersion ''1.0.1'' ''1.x'' = ''1.0.1''
   \<and> getHigherVersion ''1.2'' ''1.2.99999999999999999999x'' = ''1.2.99999999999999999999x''
   \<and> getHigherVersion ''1.10.0'' ''1.9.x'' = ''1.10.0''"
  using getHigherVersion_shared_prefix [of "''1.2''" "''1.2.3''"]
    getHigherVersion_shared_prefix [of "''1.2''" "''1.2.0''"]
    getHigherVersion_shared_prefix [of "''1.x''" "''1.0.1''"]
    getHigherVersion_shared_prefix [of "''1.2''" "''1.2.99999999999999999999x''"]
    getHigherVersion_shared_prefix [of "''1.10.0''" "''1.9.x''"]
  by (simp add: version_eval)

subsection \<open>processUpdateInfo\<close>

text \<open>
  C4.  processUpdateInfo changes the descriptor exactly when the comparator picks the
  winning version over the persisted one and the two differ; it then sets the version to
  the winning version and the last-updated time to the current time, and nothing else.
  A second call with the same winning version, at whatever time, changes nothing.  The
  function works on the descriptor in memory only: it takes and returns no file system,
  so it writes no file and makes no backup.
\<close>

theorem processUpdateInfo_mutates_iff_lower:
  "(processUpdateInfo now updateInfo currentVersion \<noteq> updateInfo
      \<longleftrightarrow> getHigherVersion (Version updateInfo) currentVersion = currentVersion
          \<and> Version updateInfo \<noteq> currentVersion)
   \<and> (processUpdateInfo now updateInfo currentVersion \<noteq> updateInfo
        \<longrightarrow> processUpdateInfo now updateInfo currentVersion
              = updateInfo\<lparr>Version := currentVersion, LastUpdated := now\<rparr>)
   \<and> processUpdateInfo later (processUpdateInfo now updateInfo currentVersion) currentVersion
       = processUpdateInfo now updateInfo currentVersion"
proof (intro conjI impI)
  show "processUpdateInfo now updateInfo currentVersion \<noteq> updateInfo
      \<longleftrightarrow> getHigherVersion (Version updateInfo) currentVersion = currentVersion
          \<and> Version updateInfo \<noteq> currentVersion"
  proof (cases "getHigherVersion (Version updateInfo) currentVersion = currentVersion
          \<and> Version updateInfo \<noteq> currentVersion")
    case True
    then have "Version (processUpdateInfo now updateInfo currentVersion) = currentVersion"
      by (simp add: processUpdateInfo_def)
    then have "processUpdateInfo now updateInfo currentVersion \<noteq> updateInfo"
      using True by auto
    then show ?thesis using True by simp
  next
    case False
    then show ?thesis by (auto simp: processUpdateInfo_def)
  qed
next
  assume "processUpdateInfo now updateInfo currentVersion \<noteq> updateInfo"
  then show "processUpdateInfo now updateInfo currentVersion
              = updateInfo\<lparr>Version := currentVersion, LastUpdated := now\<rparr>"
    by (auto simp: processUpdateInfo_def split: if_splits)
next
  show "processUpdateInfo later (processUpdateInfo now updateInfo currentVersion) currentVersion
       = processUpdateInfo now updateInfo currentVersion"
    by (simp add: processUpdateInfo_def)
qed

text \<open>
  The theorem at the descriptor of version \<open>1.0.0\<close> and the winning version \<open>1.2.0\<close>: the
  first call sets the version and the time, the second call leaves both.
\<close>

theorem processUpdateInfo_mutates_iff_lower_witness:
  "processUpdateInfo ''2024-01-02 00:00:00'' (emptyUpdateInfo\<lparr>Version := ''1.0.0''\<rparr>) ''1.2.0''
     = emptyUpdateInfo\<lparr>Version := ''1.2.0'', LastUpdated := ''2024-01-02 00:00:00''\<rparr>
   \<and> processUpdateInfo ''2024-01-03 00:00:00''
        (processUpdateInfo ''2024-01-02 00:00:00'' (emptyUpdateInfo\<lparr>Version := ''1.0.0''\<rparr>) ''1.2.0'')
        ''1.2.0''
     = emptyUpdateInfo\<lparr>Version := ''1.2.0'', LastUpdated := ''2024-01-02 00:00:00''\<rparr>"
proof -
  let ?u = "emptyUpdateInfo\<lparr>Version := ''1.0.0''\<rparr>"
  have g: "getHigherVersion ''1.0.0'' ''1.2.0'' = ''1.2.0''" by code_simp
  have v: "Version ?u = ''1.0.0''" by simp
  have ne: "processUpdateInfo ''2024-01-02 00:00:00'' ?u ''1.2.0'' \<noteq> ?u"
    using processUpdateInfo_mutates_iff_lower
      [of "''2024-01-02 00:00:00''" ?u "''1.2.0''" "''2024-01-03 00:00:00''"] g v
    by simp
  then have first: "processUpdateInfo ''2024-01-02 00:00:00'' ?u ''1.2.0''
      = ?u\<lparr>Version := ''1.2.0'', LastUpdated := ''2024-01-02 00:00:00''\<rparr>"
    using processUpdateInfo_mutates_iff_lower
      [of "''2024-01-02 00:00:00''" ?u "''1.2.0''" "''2024-01-03 00:00:00''"]
    by blast
  have second: "processUpdateInfo ''2024-01-03 00:00:00''
        (processUpdateInfo ''2024-01-02 00:00:00'' ?u ''1.2.0'') ''1.2.0''
      = processUpdateInfo ''2024-01-02 00:00:00'' ?u ''1.2.0''"
    using processUpdateInfo_mutates_iff_lower
      [of "''2024-01-02 00:00:00''" ?u "''1.2.0''" "''2024-01-03 00:00:00''"]
    by blast
  show ?thesis using first second by simp
qed

subsection \<open>getUpdateInfo and setUpdateInfo\<close>

lemma mergeInto_member:
  assumes "mergeInto allData structAsMap = Some doc"
  shows "(\<forall>key. member structAsMap key = None \<longrightarrow> member doc key = member allData key)
       \<and> (\<forall>key value. member structAsMap key = Some value \<longrightarrow> member doc key = Some value)"
proof (cases structAsMap)
  case None
  then show ?thesis using assms by (simp add: mergeInto_def member_def)
next
  case (Some entries)
  show ?thesis
  proof (cases "dom entries = {}")
    case True
    then have "doc = allData" "\<And>key. entries key = None"
      using assms Some by (auto simp: mergeInto_def)
    then show ?thesis using Some by (simp add: member_def)
  next
    case False
    then obtain m where "allData = Some m" "doc = Some (m ++ entries)"
      using assms Some by (cases allData) (auto simp: mergeInto_def)
    then show ?thesis using Some by (auto simp: member_def map_add_def split: option.splits)
  qed
qed

lemma setUpdateInfo_success:
  assumes "setUpdateInfo codec updateInfo allData updateInfoPath fs1 = (None, fs2)"
  shows "\<exists>tempData structAsMap doc updatedData.
           Marshal codec updateInfo = Some tempData
         \<and> Unmarshal_map codec tempData = Some structAsMap
         \<and> mergeInto allData structAsMap = Some doc
         \<and> Encode codec doc = Some updatedData
         \<and> files fs2 updateInfoPath = Some updatedData"
proof -
  obtain tempData where t: "Marshal codec updateInfo = Some tempData"
    using assms by (cases "Marshal codec updateInfo") (auto simp: setUpdateInfo_def)
  obtain structAsMap where s: "Unmarshal_map codec tempData = Some structAsMap"
    using assms t by (cases "Unmarshal_map codec tempData") (auto simp: setUpdateInfo_def)
  obtain doc where d: "mergeInto allData structAsMap = Some doc"
    using assms t s by (cases "mergeInto allData structAsMap") (auto simp: setUpdateInfo_def)
  obtain updatedData where e: "Encode codec doc = Some updatedData"
    using assms t s d by (cases "Encode codec doc") (auto simp: setUpdateInfo_def)
  obtain fs' where rn: "os_Rename fs1 updateInfoPath (updateInfoPath @ ''.bak'') = Some fs'"
    using assms t s d e
    by (cases "os_Rename fs1 updateInfoPath (updateInfoPath @ ''.bak'')")
       (auto simp: setUpdateInfo_def)
  have w: "os_WriteFile fs' updateInfoPath updatedData = (fs2, True)"
    using assms t s d e rn by (auto simp: setUpdateInfo_def split: prod.splits if_splits)
  have "files fs2 updateInfoPath = Some updatedData"
    using w by (auto simp: os_WriteFile_def split: write_mode.splits)
  then show ?thesis using t s d e by blast
qed

lemma getUpdateInfo_success:
  assumes "getUpdateInfo codec fs updateInfoPath = Inr (readInfo, allData)"
  shows "\<exists>data. files fs updateInfoPath = Some data \<and> Unmarshal_map codec data = Some allData
              \<and> Unmarshal_struct codec data = Some readInfo"
  using assms
  by (auto simp: getUpdateInfo_def os_ReadFile_def split: if_splits option.splits)

text \<open>
  C3.  Let \<open>json.Marshal\<close> write no member for an \<open>UpdateInfo\<close> but those that the tags
  of its fields name.  Let getUpdateInfo read a descriptor as the typed view and the open
  map \<open>allData\<close>, and let setUpdateInfo then persist a typed view, whatever the program
  has made of it, over that map without error.  Then \<open>allData\<close> is the map that the
  document decodes to, and the file holds the encoding of a map \<open>doc\<close> in which every
  key outside the typed schema has the value that it has in \<open>allData\<close> (none when it has
  none there), and in which every member that the typed view serializes, that is, every
  member of the map \<open>structAsMap\<close> that the marshalled typed view reads back as, has the
  value that it has there, whatever \<open>allData\<close> had for the key.
\<close>

theorem setUpdateInfo_preserves_unknown_keys:
  assumes tags: "\<forall>u tempData entries.
                   Marshal codec u = Some tempData
                   \<and> Unmarshal_map codec tempData = Some (Some entries)
                   \<longrightarrow> dom entries \<subseteq> set schemaKeys"
    and rd: "getUpdateInfo codec fs updateInfoPath = Inr (readInfo, allData)"
    and wr: "setUpdateInfo codec updateInfo allData updateInfoPath fs1 = (None, fs2)"
  shows "\<exists>data tempData structAsMap doc updatedData.
           files fs updateInfoPath = Some data \<and> Unmarshal_map codec data = Some allData
         \<and> Marshal codec updateInfo = Some tempData
         \<and> Unmarshal_map codec tempData = Some structAsMap
         \<and> Encode codec doc = Some updatedData \<and> files fs2 updateInfoPath = Some updatedData
         \<and> (\<forall>key. key \<notin> set schemaKeys \<longrightarrow> member doc key = member allData key)
         \<and> (\<forall>key value. member structAsMap key = Some value \<longrightarrow> member doc key = Some value)"
proof -
  obtain data where data: "files fs updateInfoPath = Some data"
      "Unmarshal_map codec data = Some allData"
    using getUpdateInfo_success [OF rd] by blast
  obtain tempData structAsMap doc updatedData where
    s: "Marshal codec updateInfo = Some tempData"
       "Unmarshal_map codec tempData = Some structAsMap"
       "mergeInto allData structAsMap = Some doc"
       "Encode codec doc = Some updatedData"
       "files fs2 updateInfoPath = Some updatedData"
    using setUpdateInfo_success [OF wr] by blast
  have absent: "member structAsMap key = None" if "key \<notin> set schemaKeys" for key
  proof (cases structAsMap)
    case None
    then show ?thesis by (simp add: member_def)
  next
    case (Some entries)
    then have "dom entries \<subseteq> set schemaKeys" using tags s(1,2) by blast
    then show ?thesis using that Some by (auto simp: member_def)
  qed
  have "\<forall>key. key \<notin> set schemaKeys \<longrightarrow> member doc key = member allData key"
    using mergeInto_member [OF s(3)] absent by blast
  moreover have "\<forall>key value. member structAsMap key = Some value \<longrightarrow> member doc key = Some value"
    using mergeInto_member [OF s(3)] by blast
  ultimately show ?thesis using data s by blast
qed

text \<open>
  The theorem at a descriptor with the unrecognized key \<open>x\<close> of value \<open>{"y":1}\<close>, for the
  codec that stands in for the two documents: after the version is raised to \<open>1.2.0\<close> and
  the descriptor is persisted, the written map still has \<open>x\<close> with that value, and its
  version is the typed view's and no longer the \<open>1.0.0\<close> of the open map.
\<close>

theorem setUpdateInfo_preserves_unknown_keys_witness:
  "\<exists>doc fs2. setUpdateInfo sampleCodec (emptyUpdateInfo\<lparr>Version := ''1.2.0''\<rparr>)
                (Some [''x'' \<mapsto> JObject [(''y'', JNumber 1)], ''version'' \<mapsto> JString ''1.0.0''])
                ''Updates/update_info.json'' sampleFs = (None, fs2)
       \<and> files fs2 ''Updates/update_info.json'' = Some ''new''
       \<and> Encode sampleCodec doc = Some ''new''
       \<and> member doc ''x'' = Some (JObject [(''y'', JNumber 1)])
       \<and> member doc ''version'' = Some (JString ''1.2.0'')"
proof -
  let ?m = "[''x'' \<mapsto> JObject [(''y'', JNumber 1)], ''version'' \<mapsto> JString ''1.0.0'']"
  let ?u = "emptyUpdateInfo\<lparr>Version := ''1.0.0''\<rparr>"
  let ?u2 = "emptyUpdateInfo\<lparr>Version := ''1.2.0''\<rparr>"
  let ?p = "''Updates/update_info.json''"
  have tags: "\<forall>u tempData entries.
                Marshal sampleCodec u = Some tempData
                \<and> Unmarshal_map sampleCodec tempData = Some (Some entries)
                \<longrightarrow> dom entries \<subseteq> set schemaKeys"
    by (auto simp: sampleCodec_def schemaKeys_def split: if_splits)
  have rd: "getUpdateInfo sampleCodec sampleFs ?p = Inr (?u, Some ?m)"
    by (simp add: getUpdateInfo_def os_ReadFile_def sampleFs_def sampleCodec_def)
  have mg: "mergeInto (Some ?m) (Some [''version'' \<mapsto> JString ''1.2.0''])
              = Some (Some (?m ++ [''version'' \<mapsto> JString ''1.2.0'']))"
    by (simp add: mergeInto_def)
  have "fst (setUpdateInfo sampleCodec ?u2 (Some ?m) ?p sampleFs) = None"
    by (simp add: setUpdateInfo_def sampleCodec_def emptyUpdateInfo_def mg member_def
          os_Rename_def os_WriteFile_def sampleFs_def)
  then obtain fs2 where wr: "setUpdateInfo sampleCodec ?u2 (Some ?m) ?p sampleFs = (None, fs2)"
    by (cases "setUpdateInfo sampleCodec ?u2 (Some ?m) ?p sampleFs") simp
  obtain data tempData structAsMap doc updatedData where
    d: "files sampleFs ?p = Some data" "Unmarshal_map sampleCodec data = Some (Some ?m)"
      "Marshal sampleCodec ?u2 = Some tempData"
      "Unmarshal_map sampleCodec tempData = Some structAsMap"
      "Encode sampleCodec doc = Some updatedData" "files fs2 ?p = Some updatedData"
      "\<forall>key. key \<notin> set schemaKeys \<longrightarrow> member doc key = member (Some ?m) key"
      "\<forall>key value. member structAsMap key = Some value \<longrightarrow> member doc key = Some value"
    using setUpdateInfo_preserves_unknown_keys [OF tags rd wr] by (elim exE conjE)
  have notin: "''x'' \<notin> set schemaKeys" by (simp add: schemaKeys_def)
  have sm: "structAsMap = Some [''version'' \<mapsto> JString ''1.2.0'']"
    using d(3,4) by (auto simp: sampleCodec_def emptyUpdateInfo_def)
  have new: "updatedData = ''new''" using d(5) by (simp add: sampleCodec_def split: if_splits)
  have "member doc ''x'' = Some (JObject [(''y'', JNumber 1)])"
    using d(7) [rule_format, OF notin] by (simp add: member_def)
  moreover have "member doc ''version'' = Some (JString ''1.2.0'')"
    using d(8) [rule_format, of "''version''" "JString ''1.2.0''"] by (simp add: sm member_def)
  ultimately show ?thesis using wr d(5,6) new by blast
qed

subsection \<open>Backup before overwrite\<close>











subsection \<open>parseRemotePath\<close>

lemma strings_LastIndex_found: "sep \<in> set s \<Longrightarrow> 0 \<le> strings_LastIndex s sep"
  by (induction s) (auto simp: Let_def)

lemma strings_LastIndex_absent: "sep \<notin> set s \<Longrightarrow> strings_LastIndex s sep = - 1"
  by (induction s) (auto simp: Let_def)

lemma strings_LastIndex_split:
  "sep \<in> set s \<Longrightarrow>
   \<exists>d f. s = d @ sep # f \<and> sep \<notin> set f \<and> strings_LastIndex s sep = int (length d)"
proof (induction s)
  case Nil
  then show ?case by simp
next
  case (Cons c cs)
  show ?case
  proof (cases "sep \<in> set cs")
    case True
    then obtain d f where df: "cs = d @ sep # f" "sep \<notin> set f"
        "strings_LastIndex cs sep = int (length d)"
      using Cons.IH by blast
    have "c # cs = (c # d) @ sep # f" using df(1) by simp
    moreover have "strings_LastIndex (c # cs) sep = int (length (c # d))"
      using df(3) by (simp add: Let_def)
    ultimately show ?thesis using df(2) by blast
  next
    case False
    then have c: "c = sep" using Cons.prems by simp
    have "strings_LastIndex (c # cs) sep = 0"
      using False c by (simp add: strings_LastIndex_absent Let_def)
    then have "c # cs = [] @ sep # cs \<and> sep \<notin> set cs
        \<and> strings_LastIndex (c # cs) sep = int (length ([] :: string))"
      using False c by simp
    then show ?thesis by blast
  qed
qed

lemma strings_HasPrefix_slash: "strings_HasPrefix s ''/'' \<Longrightarrow> CHR ''/'' \<in> set s"
  by (cases s) (auto simp: strings_HasPrefix_def)

lemma strings_HasSuffix_slash:
  "strings_HasSuffix s ''/'' \<longleftrightarrow> s \<noteq> [] \<and> last s = CHR ''/''"
proof (cases s rule: rev_cases)
  case Nil
  then show ?thesis by (simp add: strings_HasSuffix_def)
next
  case (snoc ys y)
  then show ?thesis by (auto simp: strings_HasSuffix_def)
qed

text \<open>
  Whatever the URL, the path that parseRemotePath looks at starts with a separator, so
  the search for the last separator finds one: the no-filename error is never returned.
\<close>

lemma parseRemotePath_never_UrlNoFilename:
  "parseRemotePath url_Parse downloadURL basedir \<noteq> Inl (UrlNoFilename u)"
proof (cases "url_Parse downloadURL")
  case None
  then show ?thesis by (simp add: parseRemotePath_def)
next
  case (Some url_info)
  define path where
    "path = (if \<not> strings_HasPrefix (Path url_info) ''/'' then ''/'' @ Path url_info
             else Path url_info)"
  have "strings_HasPrefix path ''/''" by (simp add: path_def strings_HasPrefix_def)
  then have "0 \<le> strings_LastIndex path CHR ''/''"
    by (intro strings_LastIndex_found strings_HasPrefix_slash)
  then show ?thesis using Some by (simp add: parseRemotePath_def Let_def path_def)
qed

text \<open>
  C7, as stated, fails: for a URL without a path, such as \<open>https://example.com\<close>, whose
  parsed path is empty and holds no file name, parseRemotePath puts a separator in front
  of the path and then reports the directory-URL error, not the no-filename error.
\<close>

theorem parseRemotePath_empty_path_counterexample:
  "parseRemotePath (\<lambda>rawURL. if rawURL = ''https://example.com'' then Some \<lparr>Path = []\<rparr> else None)
     ''https://example.com'' ''/var/www''
   = Inl (UrlEndsDirectory ''https://example.com'')
   \<and> parseRemotePath (\<lambda>rawURL. if rawURL = ''https://example.com'' then Some \<lparr>Path = []\<rparr> else None)
       ''https://example.com'' ''/var/www''
     \<noteq> Inl (UrlNoFilename ''https://example.com'')"
  by (simp add: parseRemotePath_def strings_HasPrefix_def strings_HasSuffix_def)

text \<open>
  C7, amended.  When the URL does not parse, parseRemotePath fails with the error of
  \<open>url.Parse\<close>.  Otherwise let \<open>path\<close> be the path of the URL, with a separator put in
  front when it does not begin with one.  parseRemotePath fails with the directory-URL
  error exactly when the path of the URL is empty or ends in a separator; in every other
  case \<open>path\<close> is a directory part, a separator and a file name without a separator, and
  parseRemotePath returns the base directory, one trailing separator removed, followed
  by the directory part.  It never fails with the no-filename error.
\<close>

theorem parseRemotePath_directory_of_url:
  "(url_Parse downloadURL = None \<longrightarrow> parseRemotePath url_Parse downloadURL basedir = Inl UrlParse)
   \<and> (\<forall>url_info. url_Parse downloadURL = Some url_info \<longrightarrow>
        (if Path url_info = [] \<or> last (Path url_info) = CHR ''/''
         then parseRemotePath url_Parse downloadURL basedir = Inl (UrlEndsDirectory downloadURL)
         else (\<exists>dir fileName.
                 (if strings_HasPrefix (Path url_info) ''/'' then Path url_info
                  else ''/'' @ Path url_info) = dir @ ''/'' @ fileName
               \<and> fileName \<noteq> [] \<and> CHR ''/'' \<notin> set fileName
               \<and> parseRemotePath url_Parse downloadURL basedir
                   = Inr (strings_TrimSuffix basedir ''/'' @ dir))))
   \<and> parseRemotePath url_Parse downloadURL basedir \<noteq> Inl (UrlNoFilename u)"
proof (intro conjI allI impI)
  assume "url_Parse downloadURL = None"
  then show "parseRemotePath url_Parse downloadURL basedir = Inl UrlParse"
    by (simp add: parseRemotePath_def)
next
  fix url_info
  assume p: "url_Parse downloadURL = Some url_info"
  define path where
    "path = (if strings_HasPrefix (Path url_info) ''/'' then Path url_info
             else ''/'' @ Path url_info)"
  have pre: "strings_HasPrefix path ''/''" by (simp add: path_def strings_HasPrefix_def)
  have ne: "path \<noteq> []" using pre by (auto simp: strings_HasPrefix_def)
  have suf: "strings_HasSuffix path ''/'' \<longleftrightarrow> Path url_info = [] \<or> last (Path url_info) = CHR ''/''"
    by (auto simp: strings_HasSuffix_slash path_def strings_HasPrefix_def)
  have res: "parseRemotePath url_Parse downloadURL basedir =
      (if strings_HasSuffix path ''/'' then Inl (UrlEndsDirectory downloadURL)
       else if strings_LastIndex path CHR ''/'' < 0 then Inl (UrlNoFilename downloadURL)
       else Inr (strings_TrimSuffix basedir ''/'' @ take (nat (strings_LastIndex path CHR ''/'')) path))"
    using p by (simp add: parseRemotePath_def Let_def path_def)
  show "if Path url_info = [] \<or> last (Path url_info) = CHR ''/''
         then parseRemotePath url_Parse downloadURL basedir = Inl (UrlEndsDirectory downloadURL)
         else (\<exists>dir fileName.
                 (if strings_HasPrefix (Path url_info) ''/'' then Path url_info
                  else ''/'' @ Path url_info) = dir @ ''/'' @ fileName
               \<and> fileName \<noteq> [] \<and> CHR ''/'' \<notin> set fileName
               \<and> parseRemotePath url_Parse downloadURL basedir
                   = Inr (strings_TrimSuffix basedir ''/'' @ dir))"
  proof (cases "strings_HasSuffix path ''/''")
    case True
    then show ?thesis using res suf by simp
  next
    case False
    obtain d f where df: "path = d @ CHR ''/'' # f" "CHR ''/'' \<notin> set f"
        "strings_LastIndex path CHR ''/'' = int (length d)"
      using strings_LastIndex_split [OF strings_HasPrefix_slash [OF pre]] by blast
    have f: "f \<noteq> []"
    proof
      assume "f = []"
      then have "last path = CHR ''/''" using df(1) by simp
      then show False using False ne by (simp add: strings_HasSuffix_slash)
    qed
    have r: "parseRemotePath url_Parse downloadURL basedir
        = Inr (strings_TrimSuffix basedir ''/'' @ d)"
      using res False df by simp
    have "path = d @ ''/'' @ f" using df(1) by simp
    then have "\<exists>dir fileName. path = dir @ ''/'' @ fileName \<and> fileName \<noteq> [] \<and> CHR ''/'' \<notin> set fileName
        \<and> parseRemotePath url_Parse downloadURL basedir
            = Inr (strings_TrimSuffix basedir ''/'' @ dir)"
      using f df(2) r by blast
    then show ?thesis using False suf unfolding path_def by simp
  qed
next
  show "parseRemotePath url_Parse downloadURL basedir \<noteq> Inl (UrlNoFilename u)"
    by (rule parseRemotePath_never_UrlNoFilename)
qed

lemma split_last_separator:
  assumes "d @ CHR ''/'' # f = d' @ CHR ''/'' # f'" "CHR ''/'' \<notin> set f" "CHR ''/'' \<notin> set f'"
  shows "d = d'"
proof -
  have t: "takeWhile (\<lambda>c. c \<noteq> CHR ''/'') (rev g @ CHR ''/'' # rev e) = rev g"
    if "CHR ''/'' \<notin> set g" for g e :: string
    using that by (subst takeWhile_append2) auto
  have "rev (d @ CHR ''/'' # f) = rev (d' @ CHR ''/'' # f')" using assms(1) by simp
  then have "takeWhile (\<lambda>c. c \<noteq> CHR ''/'') (rev f @ CHR ''/'' # rev d)
      = takeWhile (\<lambda>c. c \<noteq> CHR ''/'') (rev f' @ CHR ''/'' # rev d')"
    by simp
  then have "rev f = rev f'" using t [OF assms(2)] t [OF assms(3)] by simp
  then show ?thesis using assms(1) by simp
qed

text \<open>
  The theorem at the URLs of the test of the repository: \<open>https://example.com/a/b/file.zip\<close>
  with the base directory \<open>/var/www\<close>, a URL that ends in a separator, and a URL that
  does not parse.
\<close>

theorem parseRemotePath_directory_of_url_witness:
  "parseRemotePath (\<lambda>rawURL. Some \<lparr>Path = ''/a/b/file.zip''\<rparr>)
     ''https://example.com/a/b/file.zip'' ''/var/www'' = Inr ''/var/www/a/b''
   \<and> parseRemotePath (\<lambda>rawURL. Some \<lparr>Path = ''/a/b/''\<rparr>)
       ''https://example.com/a/b/'' ''/var/www'' = Inl (UrlEndsDirectory ''https://example.com/a/b/'')
   \<and> parseRemotePath (\<lambda>rawURL. None) ''invalid://://'' ''/var/www'' = Inl UrlParse"
proof -
  have a: "parseRemotePath (\<lambda>rawURL. Some \<lparr>Path = ''/a/b/file.zip''\<rparr>)
     ''https://example.com/a/b/file.zip'' ''/var/www'' = Inr ''/var/www/a/b''"
  proof -
    obtain dir fileName where df: "''/a/b/file.zip'' = dir @ ''/'' @ fileName"
        "CHR ''/'' \<notin> set fileName"
        "parseRemotePath (\<lambda>rawURL. Some \<lparr>Path = ''/a/b/file.zip''\<rparr>)
           ''https://example.com/a/b/file.zip'' ''/var/www''
         = Inr (strings_TrimSuffix ''/var/www'' ''/'' @ dir)"
      using parseRemotePath_directory_of_url
        [where url_Parse = "\<lambda>rawURL. Some \<lparr>Path = ''/a/b/file.zip''\<rparr>"
           and downloadURL = "''https://example.com/a/b/file.zip''" and basedir = "''/var/www''"
           and u = "[]"]
      by (auto simp: strings_HasPrefix_def)
    have "''/a/b'' = dir"
      using split_last_separator [of "''/a/b''" "''file.zip''" dir fileName] df(1,2) by simp
    then show ?thesis using df(3) by (simp add: strings_TrimSuffix_def strings_HasSuffix_def)
  qed
  have b: "parseRemotePath (\<lambda>rawURL. Some \<lparr>Path = ''/a/b/''\<rparr>)
       ''https://example.com/a/b/'' ''/var/www'' = Inl (UrlEndsDirectory ''https://example.com/a/b/'')"
    using parseRemotePath_directory_of_url
        [where url_Parse = "\<lambda>rawURL. Some \<lparr>Path = ''/a/b/''\<rparr>"
           and downloadURL = "''https://example.com/a/b/''" and basedir = "''/var/www''"
           and u = "[]"]
    by simp
  have c: "parseRemotePath (\<lambda>rawURL. None) ''invalid://://'' ''/var/www'' = Inl UrlParse"
    using parseRemotePath_directory_of_url
        [where url_Parse = "\<lambda>rawURL. None"
           and downloadURL = "''invalid://://''" and basedir = "''/var/www''" and u = "[]"]
    by simp
  show ?thesis using a b c by simp
qed

subsection \<open>uploadFileViaSFTP\<close>





subsection \<open>shouldSkip\<close>

lemma anyPartMatches_iff:
  "anyPartMatches pattern parts = (\<exists>part \<in> set parts. filepath_Match pattern part = Some True)"
  by (induction parts) auto

lemma shouldSkip_iff:
  "shouldSkip path patterns =
     (\<exists>pattern \<in> set patterns.
        filepath_Match pattern (filepath_Base path) = Some True
        \<or> (\<exists>part \<in> set (strings_Split path CHR ''/''). filepath_Match pattern part = Some True))"
  by (induction patterns) (auto simp: anyPartMatches_iff)

lemma strings_Split_no_sep: "sep \<notin> set s \<Longrightarrow> strings_Split s sep = [s]"
  by (induction s) auto

lemma strings_Split_append:
  "sep \<notin> set a \<Longrightarrow> strings_Split (a @ sep # b) sep = a # strings_Split b sep"
  by (induction a) auto

lemma strings_Split_joinPath:
  "segs \<noteq> [] \<Longrightarrow> \<forall>s \<in> set segs. CHR ''/'' \<notin> set s \<Longrightarrow>
   strings_Split (joinPath segs) CHR ''/'' = segs"
proof (induction segs rule: joinPath.induct)
  case 1
  then show ?case by simp
next
  case (2 seg)
  then show ?case by (simp add: strings_Split_no_sep)
next
  case (3 seg v va)
  then show ?case by (simp add: strings_Split_append)
qed

lemma filepath_Base_last_element:
  assumes "l \<noteq> []" "CHR ''/'' \<notin> set l" "q = [] \<or> last q = CHR ''/''"
  shows "filepath_Base (q @ l) = l"
proof -
  have nl: "last l \<noteq> CHR ''/''" using last_in_set [OF assms(1)] assms(2) by auto
  have "rev (q @ l) = rev l @ rev q" by simp
  moreover have "hd (rev l) \<noteq> CHR ''/''" using nl assms(1) by (simp add: hd_rev)
  ultimately have st: "dropWhile (\<lambda>c. c = CHR ''/'') (rev (q @ l)) = rev (q @ l)"
    using assms(1) by (cases "rev l") auto
  have tw: "takeWhile (\<lambda>c. c \<noteq> CHR ''/'') (rev l @ rev q) = rev l"
  proof (cases "q = []")
    case True
    then show ?thesis using assms(2) by (auto simp: takeWhile_eq_all_conv)
  next
    case False
    then have "hd (rev q) = CHR ''/''" using assms(3) by (simp add: hd_rev)
    then have "takeWhile (\<lambda>c. c \<noteq> CHR ''/'') (rev q) = []"
      using False by (cases "rev q") auto
    then show ?thesis using assms(2) by (subst takeWhile_append2) auto
  qed
  show ?thesis using assms(1) st tw by (simp add: filepath_Base_def Let_def)
qed

lemma joinPath_Cons:
  "segs \<noteq> [] \<Longrightarrow> joinPath (seg # segs) = seg @ ''/'' @ joinPath segs"
  by (cases segs) simp_all

lemma joinPath_snoc:
  "segs \<noteq> [] \<Longrightarrow> joinPath (segs @ [s]) = joinPath segs @ ''/'' @ s"
proof (induction segs)
  case Nil
  then show ?case by simp
next
  case (Cons a segs)
  show ?case
  proof (cases "segs = []")
    case True
    then show ?thesis by simp
  next
    case False
    then show ?thesis using Cons.IH by (simp add: joinPath_Cons)
  qed
qed

lemma filepath_Base_joinPath:
  assumes "segs \<noteq> []" "\<forall>s \<in> set segs. validName s"
  shows "filepath_Base (joinPath segs) = last segs"
proof -
  obtain pre l where segs: "segs = pre @ [l]" using assms(1) by (metis rev_exhaust)
  have l: "l \<noteq> []" "CHR ''/'' \<notin> set l" using assms(2) segs by (auto simp: validName_def)
  show ?thesis
  proof (cases "pre = []")
    case True
    then show ?thesis using filepath_Base_last_element [of l "[]"] l segs by simp
  next
    case False
    then have "joinPath segs = (joinPath pre @ ''/'') @ l"
      using segs by (simp add: joinPath_snoc)
    then show ?thesis using filepath_Base_last_element [of l "joinPath pre @ ''/''"] l segs by simp
  qed
qed

lemma shouldSkip_joinPath:
  assumes "segs \<noteq> []" "\<forall>s \<in> set segs. validName s"
  shows "shouldSkip (joinPath segs) patterns = (\<exists>s \<in> set segs. excluded patterns s)"
proof -
  have sp: "strings_Split (joinPath segs) CHR ''/'' = segs"
    using assms by (intro strings_Split_joinPath) (auto simp: validName_def)
  have ba: "filepath_Base (joinPath segs) = last segs"
    using assms by (rule filepath_Base_joinPath)
  have "last segs \<in> set segs" using assms(1) by simp
  then have "(\<exists>s \<in> set segs. excluded patterns s) =
      (\<exists>pattern \<in> set patterns. filepath_Match pattern (last segs) = Some True
          \<or> (\<exists>part \<in> set segs. filepath_Match pattern part = Some True))"
    unfolding excluded_def by blast
  then show ?thesis by (simp add: shouldSkip_iff sp ba)
qed

lemma joinPath_not_dot:
  assumes "segs \<noteq> []" "\<forall>s \<in> set segs. validName s"
  shows "joinPath segs \<noteq> ''.''"
proof
  assume "joinPath segs = ''.''"
  moreover have "strings_Split (joinPath segs) CHR ''/'' = segs"
    using assms by (intro strings_Split_joinPath) (auto simp: validName_def)
  ultimately have "strings_Split ''.'' CHR ''/'' = segs" by metis
  then have "segs = [''.'']" by auto
  then show False using assms(2) by (simp add: validName_def)
qed

lemma joinPath_inj:
  assumes "segs \<noteq> []" "\<forall>s \<in> set segs. validName s" "segs' \<noteq> []" "\<forall>s \<in> set segs'. validName s"
    and "joinPath segs = joinPath segs'"
  shows "segs = segs'"
proof -
  have "strings_Split (joinPath segs) CHR ''/'' = segs"
    using assms(1,2) by (intro strings_Split_joinPath) (auto simp: validName_def)
  moreover have "strings_Split (joinPath segs') CHR ''/'' = segs'"
    using assms(3,4) by (intro strings_Split_joinPath) (auto simp: validName_def)
  ultimately show ?thesis using assms(5) by metis
qed

subsection \<open>createZipFile\<close>

lemma validTrees_iff: "validTrees ns = (\<forall>n \<in> set ns. validTree n)"
  by (induction ns) auto

lemma set_filesOfList: "set (filesOfList ns) = (\<Union>n \<in> set ns. set (filesOf n))"
  by (induction ns) auto

lemma set_filesOfList_sort_key: "set (filesOfList (sort_key f ns)) = set (filesOfList ns)"
  by (simp add: set_filesOfList)

lemma archiveEntries_empty: "archiveEntries pats slug pre {} = {}"
  by (simp add: archiveEntries_def)

lemma archiveEntries_Un:
  "archiveEntries pats slug pre (A \<union> B) = archiveEntries pats slug pre A \<union> archiveEntries pats slug pre B"
  by (auto simp: archiveEntries_def)

lemma archiveEntries_File:
  "archiveEntries pats slug pre {([name], bytes)} =
     (if excluded pats name then {}
      else (case bytes of None \<Rightarrow> {} | Some b \<Rightarrow> {(slug @ ''/'' @ joinPath (pre @ [name]), b)}))"
  by (auto simp: archiveEntries_def split: option.splits)

lemma archiveEntries_Dir:
  "archiveEntries pats slug pre (set (filesOf (Dir name readable entries))) =
     (if excluded pats name then {}
      else archiveEntries pats slug (pre @ [name]) (set (filesOfList entries)))"
proof (cases "excluded pats name")
  case True
  then show ?thesis by (auto simp: archiveEntries_def)
next
  case False
  have "archiveEntries pats slug pre (set (filesOf (Dir name readable entries)))
      = {(slug @ ''/'' @ joinPath (pre @ name # segs), b) | segs b.
          (segs, Some b) \<in> set (filesOfList entries) \<and> (\<forall>s \<in> set segs. \<not> excluded pats s)}"
    using False by (force simp: archiveEntries_def)
  then show ?thesis using False by (simp add: archiveEntries_def)
qed

lemma joinRel_relOf:
  assumes "\<forall>s \<in> set pre. validName s"
  shows "joinRel (relOf pre) name = joinPath (pre @ [name])"
proof (cases "pre = []")
  case True
  then show ?thesis by (simp add: joinRel_def relOf_def)
next
  case False
  then have "joinPath pre \<noteq> ''.''" using assms by (intro joinPath_not_dot) auto
  then show ?thesis using False by (simp add: joinRel_def relOf_def joinPath_snoc)
qed

lemma walkFn_File:
  assumes "validName name" "\<forall>s \<in> set pre. validName s \<and> \<not> excluded pats s"
  shows "walkFn pats slug (joinPath (pre @ [name])) (File name bytes) False zw =
     (if excluded pats name then Done zw
      else (case bytes of
              Some b \<Rightarrow> Done (zw @ [(slug @ ''/'' @ joinPath (pre @ [name]), b)])
            | None \<Rightarrow> Failed (joinPath (pre @ [name]))))"
proof -
  have v: "\<forall>s \<in> set (pre @ [name]). validName s" using assms by auto
  have nd: "joinPath (pre @ [name]) \<noteq> ''.''" using v by (intro joinPath_not_dot) auto
  have "shouldSkip (joinPath (pre @ [name])) pats = (\<exists>s \<in> set (pre @ [name]). excluded pats s)"
    using v by (intro shouldSkip_joinPath) auto
  then have sk: "shouldSkip (joinPath (pre @ [name])) pats = excluded pats name"
    using assms(2) by auto
  show ?thesis by (simp add: walkFn_def nd sk split: option.splits)
qed

lemma walkFn_Dir:
  assumes "validName name" "\<forall>s \<in> set pre. validName s \<and> \<not> excluded pats s"
  shows "walkFn pats slug (joinPath (pre @ [name])) (Dir name readable entries) (\<not> readable) zw =
     (if \<not> readable then Failed (joinPath (pre @ [name]))
      else if excluded pats name then SkipDir zw else Done zw)"
proof -
  have v: "\<forall>s \<in> set (pre @ [name]). validName s" using assms by auto
  have nd: "joinPath (pre @ [name]) \<noteq> ''.''" using v by (intro joinPath_not_dot) auto
  have "shouldSkip (joinPath (pre @ [name])) pats = (\<exists>s \<in> set (pre @ [name]). excluded pats s)"
    using v by (intro shouldSkip_joinPath) auto
  then have sk: "shouldSkip (joinPath (pre @ [name])) pats = excluded pats name"
    using assms(2) by auto
  show ?thesis by (simp add: walkFn_def nd sk)
qed

lemma walk_entries:
  "\<forall>pre. validTree n \<and> (\<forall>s \<in> set pre. validName s \<and> \<not> excluded pats s)
          \<and> relPath = joinPath (pre @ [nodeName n]) \<longrightarrow>
      (case walk pats slug relPath n zw of
         Done zw' \<Rightarrow> set zw' = set zw \<union> archiveEntries pats slug pre (set (filesOf n))
       | SkipDir zw' \<Rightarrow> isDir n \<and> zw' = zw \<and> archiveEntries pats slug pre (set (filesOf n)) = {}
       | Failed e \<Rightarrow> True)"
  and walkNames_entries:
    "\<forall>pre. validTrees ns \<and> (\<forall>s \<in> set pre. validName s \<and> \<not> excluded pats s)
          \<and> relPath = relOf pre \<longrightarrow>
      (case walkNames pats slug relPath ns zw of
         Done zw' \<Rightarrow> set zw' = set zw \<union> archiveEntries pats slug pre (set (filesOfList ns))
       | SkipDir zw' \<Rightarrow> False
       | Failed e \<Rightarrow> True)"
proof (induction pats slug relPath n zw and pats slug relPath ns zw rule: walk_walkNames.induct)
  case (1 pats slug relPath name bytes zw)
  show ?case
  proof (intro allI impI, elim conjE)
    fix pre
    assume v: "validTree (File name bytes)"
      and p: "\<forall>s \<in> set pre. validName s \<and> \<not> excluded pats s"
      and r: "relPath = joinPath (pre @ [nodeName (File name bytes)])"
    have vn: "validName name" using v by simp
    show "case walk pats slug relPath (File name bytes) zw of
         Done zw' \<Rightarrow> set zw' = set zw \<union> archiveEntries pats slug pre (set (filesOf (File name bytes)))
       | SkipDir zw' \<Rightarrow> isDir (File name bytes) \<and> zw' = zw
            \<and> archiveEntries pats slug pre (set (filesOf (File name bytes))) = {}
       | Failed e \<Rightarrow> True"
      using r walkFn_File [OF vn p, of slug bytes zw]
      by (auto simp: archiveEntries_File split: option.splits)
  qed
next
  case (2 pats slug relPath name readable entries zw)
  show ?case
  proof (intro allI impI, elim conjE)
    fix pre
    assume v: "validTree (Dir name readable entries)"
      and p: "\<forall>s \<in> set pre. validName s \<and> \<not> excluded pats s"
      and r: "relPath = joinPath (pre @ [nodeName (Dir name readable entries)])"
    have vn: "validName name" and ve: "validTrees entries" using v by simp_all
    have fn: "walkFn pats slug relPath (Dir name readable entries) (\<not> readable) zw =
       (if \<not> readable then Failed relPath
        else if excluded pats name then SkipDir zw else Done zw)"
      using r walkFn_Dir [OF vn p, of slug readable entries zw] by simp
    show "case walk pats slug relPath (Dir name readable entries) zw of
         Done zw' \<Rightarrow> set zw' = set zw
            \<union> archiveEntries pats slug pre (set (filesOf (Dir name readable entries)))
       | SkipDir zw' \<Rightarrow> isDir (Dir name readable entries) \<and> zw' = zw
            \<and> archiveEntries pats slug pre (set (filesOf (Dir name readable entries))) = {}
       | Failed e \<Rightarrow> True"
    proof (cases "readable \<and> \<not> excluded pats name")
      case False
      then show ?thesis using fn by (auto simp: archiveEntries_Dir simp del: filesOf.simps)
    next
      case True
      then have d: "walkFn pats slug relPath (Dir name readable entries) (\<not> readable) zw = Done zw"
        using fn by simp
      have w: "walk pats slug relPath (Dir name readable entries) zw
          = walkNames pats slug relPath (sort_key nodeName entries) zw"
        using d True by simp
      have p': "\<forall>s \<in> set (pre @ [name]). validName s \<and> \<not> excluded pats s"
        using p vn True by auto
      have ro: "relPath = relOf (pre @ [name])" using r by (simp add: relOf_def)
      have vs: "validTrees (sort_key nodeName entries)" using ve by (simp add: validTrees_iff)
      have "case walkNames pats slug relPath (sort_key nodeName entries) zw of
         Done zw' \<Rightarrow> set zw' = set zw
            \<union> archiveEntries pats slug (pre @ [name]) (set (filesOfList (sort_key nodeName entries)))
       | SkipDir zw' \<Rightarrow> False
       | Failed e \<Rightarrow> True"
        using "2.IH" [OF d] True vs p' ro by blast
      then show ?thesis using w True
        by (auto simp: archiveEntries_Dir set_filesOfList_sort_key simp del: filesOf.simps
                 split: walk_result.splits)
    qed
  qed
next
  case (3 pats slug relPath zw)
  show ?case by (simp add: archiveEntries_empty)
next
  case (4 pats slug relPath entry rest zw)
  show ?case
  proof (intro allI impI, elim conjE)
    fix pre
    assume v: "validTrees (entry # rest)"
      and p: "\<forall>s \<in> set pre. validName s \<and> \<not> excluded pats s"
      and r: "relPath = relOf pre"
    have ve: "validTree entry" and vr: "validTrees rest" using v by simp_all
    have jr: "joinRel relPath (nodeName entry) = joinPath (pre @ [nodeName entry])"
      using r p by (simp add: joinRel_relOf)
    have first: "case walk pats slug (joinRel relPath (nodeName entry)) entry zw of
         Done zw' \<Rightarrow> set zw' = set zw \<union> archiveEntries pats slug pre (set (filesOf entry))
       | SkipDir zw' \<Rightarrow> isDir entry \<and> zw' = zw
            \<and> archiveEntries pats slug pre (set (filesOf entry)) = {}
       | Failed e \<Rightarrow> True"
      using "4.IH"(1) ve p jr by blast
    have un: "archiveEntries pats slug pre (set (filesOfList (entry # rest)))
        = archiveEntries pats slug pre (set (filesOf entry))
          \<union> archiveEntries pats slug pre (set (filesOfList rest))"
      by (simp add: archiveEntries_Un)
    show "case walkNames pats slug relPath (entry # rest) zw of
         Done zw' \<Rightarrow> set zw' = set zw
            \<union> archiveEntries pats slug pre (set (filesOfList (entry # rest)))
       | SkipDir zw' \<Rightarrow> False
       | Failed e \<Rightarrow> True"
    proof (cases "walk pats slug (joinRel relPath (nodeName entry)) entry zw")
      case (Done zw1)
      have "case walkNames pats slug relPath rest zw1 of
         Done zw' \<Rightarrow> set zw' = set zw1 \<union> archiveEntries pats slug pre (set (filesOfList rest))
       | SkipDir zw' \<Rightarrow> False
       | Failed e \<Rightarrow> True"
        using "4.IH"(2) [OF Done] vr p r by blast
      then show ?thesis using Done first un by (auto split: walk_result.splits)
    next
      case (SkipDir zw1)
      then have d: "isDir entry" and z: "zw1 = zw"
        and e: "archiveEntries pats slug pre (set (filesOf entry)) = {}"
        using first by simp_all
      have "case walkNames pats slug relPath rest zw1 of
         Done zw' \<Rightarrow> set zw' = set zw1 \<union> archiveEntries pats slug pre (set (filesOfList rest))
       | SkipDir zw' \<Rightarrow> False
       | Failed e \<Rightarrow> True"
        using "4.IH"(3) [OF SkipDir] d vr p r by blast
      then show ?thesis using SkipDir d z e un by (auto split: walk_result.splits)
    next
      case (Failed e)
      then show ?thesis by simp
    qed
  qed
qed

lemma filesOf_valid:
  "validTree n \<Longrightarrow> (segs, b) \<in> set (filesOf n) \<Longrightarrow> segs \<noteq> [] \<and> (\<forall>s \<in> set segs. validName s)"
  and filesOfList_valid:
  "validTrees ns \<Longrightarrow> (segs, b) \<in> set (filesOfList ns) \<Longrightarrow> segs \<noteq> [] \<and> (\<forall>s \<in> set segs. validName s)"
  by (induction n and ns arbitrary: segs and segs rule: filesOf_filesOfList.induct) auto

lemma root_walk:
  "walk pats slug ''.'' (Dir rootName readable entries) [] =
     (if readable then walkNames pats slug ''.'' (sort_key nodeName entries) [] else Failed ''.'')"
  by (simp add: walkFn_def)

lemma createZipFile_entries:
  assumes v: "validTrees entries"
    and c: "createZipFile (Dir rootName readable entries) canCreate skipPatterns slug = Inr zw"
  shows "set zw = archiveEntries (defaultSkipPatterns @ skipPatterns) slug [] (set (filesOfList entries))"
proof -
  let ?pats = "defaultSkipPatterns @ skipPatterns"
  let ?w = "walk ?pats slug ''.'' (Dir rootName readable entries) []"
  have cw: "?w = Done zw \<or> ?w = SkipDir zw"
  proof (cases ?w)
    case (Done x)
    then show ?thesis using c by (simp add: createZipFile_def del: walk.simps split: if_splits)
  next
    case (SkipDir x)
    then show ?thesis using c by (simp add: createZipFile_def del: walk.simps split: if_splits)
  next
    case (Failed e)
    then show ?thesis using c by (simp add: createZipFile_def del: walk.simps split: if_splits)
  qed
  have r: "readable"
  proof (rule ccontr)
    assume "\<not> readable"
    then have "?w = Failed ''.''" by (simp add: root_walk del: walk.simps)
    then show False using cw by simp
  qed
  let ?n = "walkNames ?pats slug ''.'' (sort_key nodeName entries) []"
  have wn: "?n = Done zw \<or> ?n = SkipDir zw" using cw r by (simp add: root_walk del: walk.simps)
  have vs: "validTrees (sort_key nodeName entries)" using v by (simp add: validTrees_iff)
  have "relOf [] = ''.''" by (simp add: relOf_def)
  then have k: "case ?n of
         Done zw' \<Rightarrow> set zw' = set []
            \<union> archiveEntries ?pats slug [] (set (filesOfList (sort_key nodeName entries)))
       | SkipDir zw' \<Rightarrow> False
       | Failed e \<Rightarrow> True"
    using walkNames_entries [where ns = "sort_key nodeName entries" and pats = ?pats
        and relPath = "''.''" and slug = slug and zw = "[]", rule_format, of "[]"] vs
    by simp
  from wn show ?thesis
  proof
    assume "?n = Done zw"
    then show ?thesis using k by (simp add: set_filesOfList_sort_key)
  next
    assume "?n = SkipDir zw"
    then show ?thesis using k by simp
  qed
qed

lemma Match_Updates: "filepath_Match ''Updates'' ''Updates'' = Some True"
  by code_simp

lemma Match_Thumbs: "filepath_Match ''Thumbs.db'' ''Thumbs.db'' = Some True"
  by code_simp

lemma Match_log: "filepath_Match ''*.log'' ''b.log'' = Some True"
  by code_simp

lemma excludedI:
  "pattern \<in> set patterns \<Longrightarrow> filepath_Match pattern seg = Some True \<Longrightarrow> excluded patterns seg"
  unfolding excluded_def by blast

lemma excluded_defaults:
  "excluded (defaultSkipPatterns @ skipPatterns) ''Updates''"
  "excluded (defaultSkipPatterns @ skipPatterns) ''Thumbs.db''"
  by (rule excludedI [OF _ Match_Updates], simp add: defaultSkipPatterns_def)
     (rule excludedI [OF _ Match_Thumbs], simp add: defaultSkipPatterns_def)

lemma excluded_log:
  "''*.log'' \<in> set skipPatterns \<Longrightarrow> excluded (defaultSkipPatterns @ skipPatterns) ''b.log''"
  by (rule excludedI [OF _ Match_log]) simp

text \<open>
  C5.  shouldSkip holds for a path exactly when one of the patterns matches, without
  error, the last element of the path or one of its segments.  Let the names in the tree
  be file names, and let createZipFile succeed.  The archive then holds exactly one entry
  \<open>slug/path\<close> for each file of the tree on whose root-relative path no segment, the
  file's own name included, is matched by a pattern of the built-in defaults or of the
  caller; directories have no entries of their own.  So a matching directory removes
  every file below it and a matching file only itself.  In particular no file with a
  segment \<open>Updates\<close> or \<open>Thumbs.db\<close> on its path has an entry, nor has the file \<open>b.log\<close>
  at the root when \<open>*.log\<close> is among the caller's patterns.
\<close>

theorem createZipFile_archive_membership:
  assumes v: "validTrees entries"
    and c: "createZipFile (Dir rootName readable entries) canCreate skipPatterns slug = Inr zw"
  shows "(shouldSkip path patterns \<longleftrightarrow>
            (\<exists>pattern \<in> set patterns.
               filepath_Match pattern (filepath_Base path) = Some True
               \<or> (\<exists>part \<in> set (strings_Split path CHR ''/'').
                     filepath_Match pattern part = Some True)))
       \<and> set zw = {(slug @ ''/'' @ joinPath segs, b) | segs b.
                    (segs, Some b) \<in> set (filesOfList entries)
                    \<and> (\<forall>s \<in> set segs. \<not> excluded (defaultSkipPatterns @ skipPatterns) s)}
       \<and> (\<forall>segs b c. (segs, b) \<in> set (filesOfList entries)
              \<and> (''Updates'' \<in> set segs \<or> ''Thumbs.db'' \<in> set segs
                  \<or> (''*.log'' \<in> set skipPatterns \<and> segs = [''b.log'']))
            \<longrightarrow> (slug @ ''/'' @ joinPath segs, c) \<notin> set zw)"
proof (intro conjI allI impI)
  show "shouldSkip path patterns \<longleftrightarrow>
            (\<exists>pattern \<in> set patterns.
               filepath_Match pattern (filepath_Base path) = Some True
               \<or> (\<exists>part \<in> set (strings_Split path CHR ''/'').
                     filepath_Match pattern part = Some True))"
    by (rule shouldSkip_iff)
  let ?pats = "defaultSkipPatterns @ skipPatterns"
  have e: "set zw = archiveEntries ?pats slug [] (set (filesOfList entries))"
    using v c by (rule createZipFile_entries)
  show "set zw = {(slug @ ''/'' @ joinPath segs, b) | segs b.
                    (segs, Some b) \<in> set (filesOfList entries)
                    \<and> (\<forall>s \<in> set segs. \<not> excluded ?pats s)}"
    using e by (simp add: archiveEntries_def)
  fix segs b c
  assume a: "(segs, b) \<in> set (filesOfList entries)
              \<and> (''Updates'' \<in> set segs \<or> ''Thumbs.db'' \<in> set segs
                  \<or> (''*.log'' \<in> set skipPatterns \<and> segs = [''b.log'']))"
  then have ex: "\<exists>s \<in> set segs. excluded ?pats s"
    using excluded_defaults [of skipPatterns] excluded_log [of skipPatterns]
    by (elim conjE disjE) (blast, blast, simp)
  have vs: "segs \<noteq> [] \<and> (\<forall>s \<in> set segs. validName s)"
    using filesOfList_valid [OF v] a by blast
  show "(slug @ ''/'' @ joinPath segs, c) \<notin> set zw"
  proof
    assume "(slug @ ''/'' @ joinPath segs, c) \<in> set zw"
    then obtain segs' where s': "(segs', Some c) \<in> set (filesOfList entries)"
        "\<forall>s \<in> set segs'. \<not> excluded ?pats s" "joinPath segs' = joinPath segs"
      using e by (auto simp: archiveEntries_def)
    have "segs' \<noteq> [] \<and> (\<forall>s \<in> set segs'. validName s)"
      using filesOfList_valid [OF v s'(1)] .
    then have "segs' = segs" using vs s'(3) joinPath_inj by blast
    then show False using s'(2) ex by blast
  qed
qed

text \<open>
  The theorem at the sample tree with the caller's pattern \<open>*.log\<close>: the archive has the
  one entry \<open>slug/a.txt\<close>.
\<close>

theorem createZipFile_archive_membership_witness:
  "createZipFile (Dir ''plugin'' True sampleEntries) True [''*.log''] ''slug''
     = Inr [(''slug/a.txt'', ''A'')]
   \<and> (''slug/b.log'', ''B'') \<notin> set [(''slug/a.txt'', ''A'')]
   \<and> (''slug/nested/Thumbs.db'', ''D'') \<notin> set [(''slug/a.txt'', ''A'')]
   \<and> (''slug/Updates/ignored.txt'', ''C'') \<notin> set [(''slug/a.txt'', ''A'')]"
proof -
  have c: "createZipFile (Dir ''plugin'' True sampleEntries) True [''*.log''] ''slug''
     = Inr [(''slug/a.txt'', ''A'')]"
    unfolding sampleEntries_def by code_simp
  have v: "validTrees sampleEntries" by (simp add: sampleEntries_def validName_def)
  have f: "filesOfList sampleEntries =
     [([''b.log''], Some ''B''), ([''a.txt''], Some ''A''),
      ([''nested'', ''Thumbs.db''], Some ''D''), ([''Updates'', ''ignored.txt''], Some ''C'')]"
    by (simp add: sampleEntries_def)
  note t = createZipFile_archive_membership [OF v c, THEN conjunct2, THEN conjunct2, rule_format]
  have "(''slug'' @ ''/'' @ joinPath [''b.log''], ''B'') \<notin> set [(''slug/a.txt'', ''A'')]"
    by (rule t) (simp add: f)
  moreover have "(''slug'' @ ''/'' @ joinPath [''nested'', ''Thumbs.db''], ''D'')
      \<notin> set [(''slug/a.txt'', ''A'')]"
    by (rule t) (simp add: f)
  moreover have "(''slug'' @ ''/'' @ joinPath [''Updates'', ''ignored.txt''], ''C'')
      \<notin> set [(''slug/a.txt'', ''A'')]"
    by (rule t) (simp add: f)
  ultimately show ?thesis using c by simp
qed

lemma walk_same_skip:
  "(\<forall>path. shouldSkip path pats' = shouldSkip path pats) \<longrightarrow>
     walk pats slug relPath n zw = walk pats' slug relPath n zw"
  and walkNames_same_skip:
  "(\<forall>path. shouldSkip path pats' = shouldSkip path pats) \<longrightarrow>
     walkNames pats slug relPath ns zw = walkNames pats' slug relPath ns zw"
proof (induction pats slug relPath n zw and pats slug relPath ns zw rule: walk_walkNames.induct)
  case (1 pats slug relPath name bytes zw)
  show ?case
  proof
    assume eq: "\<forall>path. shouldSkip path pats' = shouldSkip path pats"
    have "walkFn pats' slug relPath (File name bytes) False zw
        = walkFn pats slug relPath (File name bytes) False zw"
      unfolding walkFn_def using eq by simp
    then show "walk pats slug relPath (File name bytes) zw
        = walk pats' slug relPath (File name bytes) zw"
      by simp
  qed
next
  case (2 pats slug relPath name readable entries zw)
  show ?case
  proof
    assume eq: "\<forall>path. shouldSkip path pats' = shouldSkip path pats"
    have f: "walkFn pats' slug relPath (Dir name readable entries) (\<not> readable) zw
        = walkFn pats slug relPath (Dir name readable entries) (\<not> readable) zw"
      unfolding walkFn_def using eq by simp
    show "walk pats slug relPath (Dir name readable entries) zw
        = walk pats' slug relPath (Dir name readable entries) zw"
    proof (cases "walkFn pats slug relPath (Dir name readable entries) (\<not> readable) zw")
      case (Done zw1)
      show ?thesis
      proof (cases readable)
        case True
        then have "walkNames pats slug relPath (sort_key nodeName entries) zw1
            = walkNames pats' slug relPath (sort_key nodeName entries) zw1"
          using "2.IH" [OF Done] eq by simp
        then show ?thesis using f Done True by simp
      next
        case False
        then show ?thesis using f Done by simp
      qed
    next
      case (SkipDir zw1)
      then show ?thesis using f by simp
    next
      case (Failed e)
      then show ?thesis using f by simp
    qed
  qed
next
  case (3 pats slug relPath zw)
  then show ?case by simp
next
  case (4 pats slug relPath entry rest zw)
  show ?case
  proof
    assume eq: "\<forall>path. shouldSkip path pats' = shouldSkip path pats"
    have w: "walk pats' slug (joinRel relPath (nodeName entry)) entry zw
        = walk pats slug (joinRel relPath (nodeName entry)) entry zw"
      using "4.IH"(1) eq by simp
    show "walkNames pats slug relPath (entry # rest) zw
        = walkNames pats' slug relPath (entry # rest) zw"
    proof (cases "walk pats slug (joinRel relPath (nodeName entry)) entry zw")
      case (Done zw1)
      then have "walkNames pats slug relPath rest zw1 = walkNames pats' slug relPath rest zw1"
        using "4.IH"(2) eq by simp
      then show ?thesis using w Done by simp
    next
      case (SkipDir zw1)
      show ?thesis
      proof (cases "isDir entry")
        case True
        then have "walkNames pats slug relPath rest zw1 = walkNames pats' slug relPath rest zw1"
          using "4.IH"(3) [OF SkipDir] eq by simp
        then show ?thesis using w SkipDir True by simp
      next
        case False
        then show ?thesis using w SkipDir by simp
      qed
    next
      case (Failed e)
      then show ?thesis using w by simp
    qed
  qed
qed

lemma shouldSkip_drop_bad:
  assumes "\<forall>part \<in> set (filepath_Base path # strings_Split path CHR ''/'').
             filepath_Match bad part = None"
  shows "shouldSkip path (before @ bad # after) = shouldSkip path (before @ after)"
  using assms by (auto simp: shouldSkip_iff)

text \<open>
  C10.  Let \<open>bad\<close> be a pattern for which the glob matcher reports a bad-pattern error
  on the last element of a path and on each of its segments.  Then shouldSkip, which
  returns a truth value and cannot fail, gives the same answer for the path with \<open>bad\<close>
  among the patterns as without it.  And when the matcher reports the error for \<open>bad\<close>
  whatever the name, createZipFile with \<open>bad\<close> among the caller's patterns returns what
  it returns without it, the same archive or the same error.
\<close>

theorem bad_pattern_matches_nothing:
  "((\<forall>part \<in> set (filepath_Base path # strings_Split path CHR ''/'').
       filepath_Match bad part = None)
    \<longrightarrow> shouldSkip path (before @ bad # after) = shouldSkip path (before @ after))
   \<and> ((\<forall>name. filepath_Match bad name = None)
      \<longrightarrow> createZipFile sourceDir canCreate (before @ bad # after) slug
            = createZipFile sourceDir canCreate (before @ after) slug)"
proof (intro conjI impI)
  assume "\<forall>part \<in> set (filepath_Base path # strings_Split path CHR ''/'').
            filepath_Match bad part = None"
  then show "shouldSkip path (before @ bad # after) = shouldSkip path (before @ after)"
    by (rule shouldSkip_drop_bad)
next
  assume bad: "\<forall>name. filepath_Match bad name = None"
  have "shouldSkip p ((defaultSkipPatterns @ before) @ bad # after)
      = shouldSkip p ((defaultSkipPatterns @ before) @ after)" for p
    using bad by (intro shouldSkip_drop_bad) simp
  then have "walk (defaultSkipPatterns @ before @ after) slug ''.'' sourceDir []
      = walk (defaultSkipPatterns @ before @ bad # after) slug ''.'' sourceDir []"
    using walk_same_skip [where pats = "defaultSkipPatterns @ before @ after"
        and pats' = "defaultSkipPatterns @ before @ bad # after"]
    by simp
  then show "createZipFile sourceDir canCreate (before @ bad # after) slug
           = createZipFile sourceDir canCreate (before @ after) slug"
    by (simp add: createZipFile_def)
qed

text \<open>
  The theorem at the pattern \<open>[\<close>, a character class that is never closed, added to the
  pattern \<open>*.log\<close>, for the path \<open>nested/b.log\<close> and for the sample tree.
\<close>

theorem bad_pattern_matches_nothing_witness:
  "(\<forall>name. filepath_Match ''['' name = None)
   \<and> shouldSkip ''nested/b.log'' [''['', ''*.log''] = shouldSkip ''nested/b.log'' [''*.log'']
   \<and> createZipFile (Dir ''plugin'' True sampleEntries) True [''['', ''*.log''] ''slug''
       = createZipFile (Dir ''plugin'' True sampleEntries) True [''*.log''] ''slug''"
proof -
  have b: "\<forall>name. filepath_Match ''['' name = None"
    by (simp add: filepath_Match.simps scanChunk_def getEsc_def)
  show ?thesis
    using bad_pattern_matches_nothing
      [where bad = "''[''" and path = "''nested/b.log''" and before = "[]"
         and after = "[''*.log'']"
         and sourceDir = "Dir ''plugin'' True sampleEntries" and canCreate = True
         and slug = "''slug''"] b
    by simp
qed

subsection \<open>The name of the archive\<close>






subsection \<open>The version declarations in processMainPHPFile\<close>

text \<open>
  On the test file of the repository, with the comment \<open>1.0.0\<close> before the class
  property \<open>1.2.0\<close> and no other version, the one edit has the length of what it
  replaces, and the file is written as expected.
\<close>

lemma processMainPHPFile_test_run:
  "updateVersions testEngine testSource = Inr (testVersioned, ''1.2.0'')"
  "updateLastUpdate testEngine ''2024-01-02 03:04:05'' testVersioned = Inr testDated"
  "fst (processMainPHPFile testEngine ''2024-01-02 03:04:05'' ''plugin.php'' testInfo testFs)
     = Inr ''1.2.0''"
  "files (snd (processMainPHPFile testEngine ''2024-01-02 03:04:05'' ''plugin.php'' testInfo testFs))
     ''plugin.php''
   = Some ''<?php\<newline>/*\<newline> * Plugin Name: TestPlugin\<newline> * Version: 1.2.0\<newline> * Last-Update: 2024-01-02 03:04:05\<newline> */\<newline>class TestPlugin { private $version = '1.2.0'; }\<newline>require 'vendor/autoload.php';\<newline>$updateChecker = PucFactory::buildUpdateChecker('https://example.com/updates/update_info.json', __FILE__, 'new-slug');\<newline>''"
  by code_simp+

text \<open>
  C2.  The code at the failing input \<open>staleSource\<close>: a main file with the class
  property \<open>1.2.0\<close>, after it the comment \<open>// Version: 1.0.0\<close>, and a define()
  statement of version \<open>1.10.0\<close>, which is the current version.  The class property is
  written first and grows by one byte; the comment is then written at the offsets that
  it had in the text as read, one byte too far to the left.  In the file that
  processMainPHPFile writes, the comment line is \<open>// Version:1.10.00\<close>: the blank
  before the version, which is outside every matched span, is lost, the last digit of
  the old version is left behind, and the declaration does not read \<open>1.10.0\<close>.
\<close>

theorem processMainPHPFile_stale_offsets:
  "updateVersions staleEngine staleSource = Inr (staleVersioned, ''1.10.0'')
   \<and> slice staleSource 55 72 = Some ''// Version: 1.0.0''
   \<and> slice staleVersioned 56 74 = Some ''// Version:1.10.00''
   \<and> fst (processMainPHPFile staleEngine ''2024-01-02 03:04:05'' ''plugin.php'' testInfo staleFs)
       = Inr ''1.10.0''
   \<and> files (snd (processMainPHPFile staleEngine ''2024-01-02 03:04:05'' ''plugin.php'' testInfo
                    staleFs)) ''plugin.php''
       = Some ''<?php\<newline>class TestPlugin { private $version = '1.10.0'; }\<newline>// Version:1.10.00\<newline>// Last-Update: 2024-01-02 03:04:05\<newline>define('TP_VERSION', '1.10.0');\<newline>$updateChecker = PucFactory::buildUpdateChecker('https://example.com/updates/update_info.json', __FILE__, 'new-slug');\<newline>''"
  by code_simp

end
